theory Spec2Isabelle
  imports Main "HOL-Library.Char_ord" "HOL-Library.List_Lexorder" "HOL-Library.Multiset"
begin

section \<open>Data model\<close>

text \<open>
  Positions, ranges and text edits of the language server protocol, and the links of
  \<^verbatim>\<open>types/documentLink\<close> as the two source files read them: every link has a kind,
  a source and an href; a definition has a \<^verbatim>\<open>ref\<close> besides.
\<close>

record Position =
  line :: nat
  character :: nat

record Range =
  range_start :: Position
  range_end :: Position

definition Range_create :: "nat \<Rightarrow> nat \<Rightarrow> nat \<Rightarrow> nat \<Rightarrow> Range" where
  "Range_create sl sc el ec =
     \<lparr>range_start = \<lparr>line = sl, character = sc\<rparr>, range_end = \<lparr>line = el, character = ec\<rparr>\<rparr>"

record TextEdit =
  newText :: string
  edit_range :: Range

datatype LinkHref =
    External string
  | Internal string string
  | Reference string

datatype MdLinkKind = Link | Definition | AutoLink

record MdLinkSource =
  src_range :: Range
  src_targetRange :: Range
  src_hrefText :: string

record MdRef =
  ref_range :: Range
  ref_text :: string

text \<open>
  \<^verbatim>\<open>MdLink\<close> is a union tagged by \<^verbatim>\<open>kind\<close>. The field \<open>ref\<close> is read on definitions
  only (after the filter on the kind).
\<close>

record MdLink =
  kind :: MdLinkKind
  source :: MdLinkSource
  href :: LinkHref
  ref :: MdRef

text \<open>\<^verbatim>\<open>def.source.range.start.line\<close> and \<^verbatim>\<open>def.source.range.end.line\<close>.\<close>

definition start_line :: "MdLink \<Rightarrow> nat" where
  "start_line d = line (range_start (src_range (source d)))"

definition end_line :: "MdLink \<Rightarrow> nat" where
  "end_line d = line (range_end (src_range (source d)))"

section \<open>The document\<close>

text \<open>
  The line feed, and JavaScript's \<^verbatim>\<open>Array.prototype.join\<close> and
  \<^verbatim>\<open>String.prototype.split(/\r\n|\n/g)\<close>.
\<close>

definition LF :: char where
  "LF = CHR 0x0A"

definition CR :: char where
  "CR = CHR 0x0D"

fun join :: "string \<Rightarrow> string list \<Rightarrow> string" where
  "join sep [] = []"
| "join sep [x] = x"
| "join sep (x # y # ys) = x @ sep @ join sep (y # ys)"

fun split_lines :: "string \<Rightarrow> string list" where
  "split_lines [] = [[]]"
| "split_lines (c # cs) =
     (if c = LF then [] # split_lines cs
      else if c = CR \<and> cs \<noteq> [] \<and> hd cs = LF then [] # split_lines (tl cs)
      else (case split_lines cs of
              [] \<Rightarrow> [[c]]
            | l # ls \<Rightarrow> (c # l) # ls))"

text \<open>
  Modelled from the spec: the Document abstraction (\<^verbatim>\<open>ITextDocument\<close>, \<^verbatim>\<open>getLine\<close>,
  \<^verbatim>\<open>getDocUri\<close> of \<^verbatim>\<open>types/textDocument\<close>), which gives read-only access to line
  text, line count and range text, lines addressed from zero. A document is its
  identifier, its lines, each without its terminator, and the line terminator that
  separates them: a line feed, a carriage return and a line feed, or a lone carriage
  return. A line out of range is empty; the text from the start of a line to the
  sentinel maximum position is the remaining lines joined by the terminator.
\<close>

record ITextDocument =
  doc_uri :: string
  doc_lines :: "string list"
  doc_eol :: string

definition lineCount :: "ITextDocument \<Rightarrow> nat" where
  "lineCount doc = length (doc_lines doc)"

definition getLine :: "ITextDocument \<Rightarrow> nat \<Rightarrow> string" where
  "getLine doc n = (if n < length (doc_lines doc) then doc_lines doc ! n else [])"

definition getTextFromLine :: "ITextDocument \<Rightarrow> nat \<Rightarrow> string" where
  "getTextFromLine doc n = join (doc_eol doc) (drop n (doc_lines doc))"

definition getDocUri :: "ITextDocument \<Rightarrow> string" where
  "getDocUri doc = doc_uri doc"

text \<open>
  Modelled from the spec: \<^verbatim>\<open>isEmptyOrWhitespace\<close> of \<^verbatim>\<open>util/string\<close>, true of a text
  that is empty or all whitespace.
\<close>

definition isWhitespaceChar :: "char \<Rightarrow> bool" where
  "isWhitespaceChar c =
     (c = CHR '' '' \<or> c = CHR 0x09 \<or> c = LF \<or> c = CHR 0x0B \<or> c = CHR 0x0C \<or> c = CR)"

definition isEmptyOrWhitespace :: "string \<Rightarrow> bool" where
  "isEmptyOrWhitespace s = list_all isWhitespaceChar s"

section \<open>Block Locator\<close>

text \<open>
  The backward loop of \<^verbatim>\<open>getExistingDefinitionBlock\<close>: \<open>walk_back prevDef ds\<close> visits
  the definitions \<open>ds\<close> (given from the last one down to the first) and stops at the
  first whose start line is less than the previous start line minus one. The
  subtraction is JavaScript's: \<open>0 - 1\<close> is \<open>-1\<close>.
\<close>

fun walk_back :: "MdLink \<Rightarrow> MdLink list \<Rightarrow> MdLink" where
  "walk_back prevDef [] = prevDef"
| "walk_back prevDef (d # ds) =
     (if int (start_line d) < int (start_line prevDef) - 1 then prevDef
      else walk_back d ds)"

record LineSpan =
  startLine :: nat
  endLine :: nat

definition getExistingDefinitionBlock :: "ITextDocument \<Rightarrow> MdLink list \<Rightarrow> LineSpan option" where
  "getExistingDefinitionBlock doc orderedDefinitions =
     (if orderedDefinitions = [] then None
      else
        let lastDef = last orderedDefinitions;
            textAfter = getTextFromLine doc (end_line lastDef + 1)
        in if isEmptyOrWhitespace textAfter
           then Some \<lparr>startLine = start_line (walk_back lastDef (rev orderedDefinitions)),
                      endLine = start_line lastDef\<rparr>
           else None)"

text \<open>
  Document order: every definition starts on a later line than the one before it.
\<close>

definition doc_ordered :: "MdLink list \<Rightarrow> bool" where
  "doc_ordered defs = sorted_wrt (<) (map start_line defs)"

fun consecutive :: "nat list \<Rightarrow> bool" where
  "consecutive [] = True"
| "consecutive [x] = True"
| "consecutive (x # y # ys) = (y = Suc x \<and> consecutive (y # ys))"

section \<open>Link snapshot\<close>

text \<open>
  Modelled from the spec: the DefinitionSet (\<^verbatim>\<open>LinkDefinitionSet\<close> of
  \<^verbatim>\<open>types/documentLink\<close>), a mapping from normalized label to definition with lookup;
  labels are compared case- and whitespace-insensitively, and of several definitions of
  one normalized label the first is kept. The set is the list of its entries, keyed by
  normalized label.
\<close>

definition toLowerChar :: "char \<Rightarrow> char" where
  "toLowerChar c =
     (if CHR ''A'' \<le> c \<and> c \<le> CHR ''Z'' then char_of (of_char c + (32 :: nat)) else c)"

definition trim :: "string \<Rightarrow> string" where
  "trim s = rev (dropWhile isWhitespaceChar (rev (dropWhile isWhitespaceChar s)))"

definition normalizeRefName :: "string \<Rightarrow> string" where
  "normalizeRefName s = map toLowerChar (trim s)"

type_synonym LinkDefinitionSet = "(string \<times> MdLink) list"

definition lookup :: "LinkDefinitionSet \<Rightarrow> string \<Rightarrow> MdLink option" where
  "lookup defs name = map_of defs (normalizeRefName name)"

definition LinkDefinitionSet_add :: "LinkDefinitionSet \<Rightarrow> MdLink \<Rightarrow> LinkDefinitionSet" where
  "LinkDefinitionSet_add defs link =
     (if kind link = Definition \<and> lookup defs (ref_text (ref link)) = None
      then defs @ [(normalizeRefName (ref_text (ref link)), link)]
      else defs)"

definition LinkDefinitionSet_create :: "MdLink list \<Rightarrow> LinkDefinitionSet" where
  "LinkDefinitionSet_create ls = foldl LinkDefinitionSet_add [] ls"

text \<open>The snapshot \<^verbatim>\<open>MdDocumentLinksInfo\<close> that the link provider returns for a document.\<close>

record MdDocumentLinksInfo =
  links :: "MdLink list"
  definitions :: LinkDefinitionSet

section \<open>Group Segmenter\<close>

text \<open>
  The forward loop of \<^verbatim>\<open>#getDefinitionBlockGroups\<close>: \<open>scan_group endDef ds\<close> extends the
  group over the definitions \<open>ds\<close> that follow while each starts on the line after
  the group's last member, and returns the last member with the definitions left
  over (\<^verbatim>\<open>definitions.slice(i + 1)\<close>), on which the generator recurses.
\<close>

fun scan_group :: "MdLink \<Rightarrow> MdLink list \<Rightarrow> MdLink \<times> MdLink list" where
  "scan_group endDef [] = (endDef, [])"
| "scan_group endDef (nextDef # ds) =
     (if start_line nextDef = start_line endDef + 1 then scan_group nextDef ds
      else (endDef, nextDef # ds))"

lemma scan_group_length: "length (snd (scan_group e ds)) \<le> length ds"
  by (induction ds arbitrary: e) (auto intro: le_SucI)

function getDefinitionBlockGroups :: "MdLink list \<Rightarrow> LineSpan list" where
  "getDefinitionBlockGroups [] = []"
| "getDefinitionBlockGroups (startDef # ds) =
     \<lparr>startLine = start_line startDef, endLine = start_line (fst (scan_group startDef ds))\<rparr>
       # getDefinitionBlockGroups (snd (scan_group startDef ds))"
  by pat_completeness auto
termination
  by (relation "measure length") (auto simp: scan_group_length less_Suc_eq_le)

section \<open>Definition Organizer\<close>

text \<open>
  \<^verbatim>\<open>Array.prototype.sort\<close> is stable; with a consistent comparator it returns the sorted
  arrangement of the array in which elements that compare equal keep their order. The
  comparator is a parameter of the model: \<^verbatim>\<open>String.prototype.localeCompare\<close> depends on
  the host's locale.
\<close>

fun insort_cmp :: "('a \<Rightarrow> 'a \<Rightarrow> int) \<Rightarrow> 'a \<Rightarrow> 'a list \<Rightarrow> 'a list" where
  "insort_cmp cmp x [] = [x]"
| "insort_cmp cmp x (y # ys) =
     (if cmp x y \<le> 0 then x # y # ys else y # insort_cmp cmp x ys)"

definition Array_sort :: "('a \<Rightarrow> 'a \<Rightarrow> int) \<Rightarrow> 'a list \<Rightarrow> 'a list" where
  "Array_sort cmp xs = foldr (insort_cmp cmp) xs []"

definition consistent_comparator :: "('a \<Rightarrow> 'a \<Rightarrow> int) \<Rightarrow> bool" where
  "consistent_comparator cmp =
     ((\<forall>a b. cmp a b \<le> 0 \<or> cmp b a \<le> 0) \<and>
      (\<forall>a b c. cmp a b \<le> 0 \<longrightarrow> cmp b c \<le> 0 \<longrightarrow> cmp a c \<le> 0))"

text \<open>
  The backward loop of \<^verbatim>\<open>#getLastNonWhitespaceLine\<close> over the indices below \<open>n\<close>.
\<close>

fun last_nonblank_index :: "string list \<Rightarrow> nat \<Rightarrow> nat option" where
  "last_nonblank_index lines 0 = None"
| "last_nonblank_index lines (Suc i) =
     (if \<not> isEmptyOrWhitespace (lines ! i) then Some i else last_nonblank_index lines i)"

text \<open>Called by the Organizer on a non-empty list only.\<close>

definition getLastNonWhitespaceLine :: "ITextDocument \<Rightarrow> MdLink list \<Rightarrow> nat" where
  "getLastNonWhitespaceLine doc orderedDefinitions =
     (let lastDef = last orderedDefinitions;
          textAfter = getTextFromLine doc (end_line lastDef + 1);
          lines = split_lines textAfter
      in case last_nonblank_index lines (length lines) of
           Some i \<Rightarrow> start_line lastDef + 1 + i
         | None \<Rightarrow> start_line lastDef)"

text \<open>
  The parts of \<^verbatim>\<open>getOrganizeLinkDefinitionEdits\<close>, named after its local variables:
  the deletion edits of the groups, \<^verbatim>\<open>sortedDefs\<close>, \<^verbatim>\<open>newDefs\<close> and \<^verbatim>\<open>defBlock\<close>.
\<close>

definition group_deletion_edits ::
  "ITextDocument \<Rightarrow> LineSpan option \<Rightarrow> LineSpan list \<Rightarrow> TextEdit list" where
  "group_deletion_edits doc existingDefBlockRange groups =
     map (\<lambda>g. \<lparr>newText = [],
               edit_range = Range_create (startLine g) 0 (endLine g)
                              (length (getLine doc (endLine g)))\<rparr>)
       (filter (\<lambda>g. case existingDefBlockRange of
                       None \<Rightarrow> True
                     | Some b \<Rightarrow> startLine g < startLine b) groups)"

definition sortedDefs :: "(string \<Rightarrow> string \<Rightarrow> int) \<Rightarrow> MdLink list \<Rightarrow> MdLink list" where
  "sortedDefs localeCompare defs =
     Array_sort (\<lambda>a b. localeCompare (ref_text (ref a)) (ref_text (ref b))) defs"

definition references :: "MdLink \<Rightarrow> MdLink \<Rightarrow> bool" where
  "references link d =
     (kind link = Link \<and>
      (case href link of Reference r \<Rightarrow> r = ref_text (ref d) | _ \<Rightarrow> False))"

definition newDefs ::
  "(string \<Rightarrow> string \<Rightarrow> int) \<Rightarrow> bool \<Rightarrow> MdLink list \<Rightarrow> MdLink list \<Rightarrow> MdLink list" where
  "newDefs localeCompare removeUnused all_links defs =
     filter (\<lambda>d. if \<not> removeUnused then True
                 else list_ex (\<lambda>link. references link d) all_links)
       (sortedDefs localeCompare defs)"

definition render_definition :: "MdLink \<Rightarrow> string" where
  "render_definition d = ''['' @ ref_text (ref d) @ '']: '' @ src_hrefText (source d)"

definition defBlock :: "MdLink list \<Rightarrow> string" where
  "defBlock ds = join [LF] (map render_definition ds)"

definition getOrganizeLinkDefinitionEdits ::
  "(string \<Rightarrow> string \<Rightarrow> int) \<Rightarrow> ITextDocument \<Rightarrow> bool \<Rightarrow> bool \<Rightarrow> MdDocumentLinksInfo
     \<Rightarrow> TextEdit list" where
  "getOrganizeLinkDefinitionEdits localeCompare doc removeUnused isCancellationRequested info =
     (if isCancellationRequested then []
      else
        let defs = filter (\<lambda>link. kind link = Definition) (links info) in
        if defs = [] then []
        else
          let existingDefBlockRange = getExistingDefinitionBlock doc defs;
              edits = group_deletion_edits doc existingDefBlockRange
                        (getDefinitionBlockGroups defs);
              nds = newDefs localeCompare removeUnused (links info) defs
          in case existingDefBlockRange of
               Some blk \<Rightarrow>
                 let hasLeadingWhiteSpace =
                       (startLine blk \<le> 0 \<or>
                        isEmptyOrWhitespace (getLine doc (startLine blk - 1)))
                 in if edits = [] \<and> length nds = length defs \<and>
                       list_all (\<lambda>i. ref (defs ! i) = ref (nds ! i)) [0..<length defs]
                    then []
                    else edits @
                      [\<lparr>newText = (if hasLeadingWhiteSpace then [] else [LF]) @ defBlock nds,
                        edit_range = Range_create (startLine blk) 0 (endLine blk)
                                       (length (getLine doc (endLine blk)))\<rparr>]
             | None \<Rightarrow>
                 let ln = getLastNonWhitespaceLine doc defs
                 in edits @
                      [\<lparr>newText = (if int ln = int (lineCount doc) - 1 then [LF, LF] else [LF])
                                   @ defBlock nds,
                        edit_range = Range_create (ln + 1) 0 (lineCount doc) 0\<rparr>])"

section \<open>Definition Inserter\<close>

text \<open>\<^verbatim>\<open>lsp.TextEdit.insert\<close>: an edit whose range starts and ends at the position.\<close>

definition TextEdit_insert :: "Position \<Rightarrow> string \<Rightarrow> TextEdit" where
  "TextEdit_insert pos txt = \<lparr>newText = txt, edit_range = \<lparr>range_start = pos, range_end = pos\<rparr>\<rparr>"

definition createAddDefinitionEdit ::
  "ITextDocument \<Rightarrow> MdLink list \<Rightarrow> (string \<times> string) list \<Rightarrow> TextEdit" where
  "createAddDefinitionEdit doc existingDefinitions nds =
     (let blk = getExistingDefinitionBlock doc existingDefinitions;
          newDefText = join [LF]
            (map (\<lambda>(definitionText, placeholder). ''['' @ placeholder @ '']: '' @ definitionText)
               nds)
      in case blk of
           None \<Rightarrow>
             TextEdit_insert \<lparr>line = lineCount doc, character = 0\<rparr> ([LF, LF] @ newDefText)
         | Some b \<Rightarrow>
             let ln = getLine doc (endLine b)
             in TextEdit_insert \<lparr>line = endLine b, character = length ln\<rparr> ([LF] @ newDefText))"

section \<open>Link Extractor\<close>

text \<open>
  Modelled from the spec: \<^verbatim>\<open>comparePosition\<close> and \<^verbatim>\<open>translatePosition\<close> of
  \<^verbatim>\<open>types/position\<close> (positions are ordered by line, then by character; a translation
  moves the character by a delta), \<^verbatim>\<open>isSameResource\<close> of \<^verbatim>\<open>util/path\<close> (the same
  resolved resource identity, here the identifier's text), the range text of the
  Document, \<^verbatim>\<open>codeActionKindContains\<close> (a kind contains itself and the kinds below it)
  and the \<^verbatim>\<open>WorkspaceEditBuilder\<close> of \<^verbatim>\<open>util/editBuilder\<close>, which collects the edits
  of a resource in the order they are added. \<^verbatim>\<open>rangeIntersects\<close> of \<^verbatim>\<open>types/range\<close> is
  a parameter of \<open>getActions\<close>.
\<close>

definition comparePosition :: "Position \<Rightarrow> Position \<Rightarrow> int" where
  "comparePosition a b =
     (if line a < line b then - 1
      else if line a > line b then 1
      else if character a < character b then - 1
      else if character a > character b then 1
      else 0)"

definition translatePosition :: "Position \<Rightarrow> int \<Rightarrow> Position" where
  "translatePosition pos characterDelta =
     \<lparr>line = line pos, character = nat (int (character pos) + characterDelta)\<rparr>"

definition isSameResource :: "string \<Rightarrow> string \<Rightarrow> bool" where
  "isSameResource a b = (a = b)"

definition getText :: "ITextDocument \<Rightarrow> Range \<Rightarrow> string" where
  "getText doc r =
     (let s = range_start r; e = range_end r
      in if line s = line e
         then take (character e - character s) (drop (character s) (getLine doc (line s)))
         else if line s < line e
         then join [LF]
                ([drop (character s) (getLine doc (line s))]
                 @ map (getLine doc) [line s + 1 ..< line e]
                 @ [take (character e) (getLine doc (line e))])
         else [])"

definition codeActionKindContains :: "string \<Rightarrow> string \<Rightarrow> bool" where
  "codeActionKindContains kindA kindB =
     (kindA = kindB \<or> take (length kindA + 1) kindB = kindA @ ''.'')"

type_synonym WorkspaceEditBuilder = "(string \<times> TextEdit) list"

definition builder_replace ::
  "WorkspaceEditBuilder \<Rightarrow> string \<Rightarrow> Range \<Rightarrow> string \<Rightarrow> WorkspaceEditBuilder" where
  "builder_replace builder resource r txt =
     builder @ [(resource, \<lparr>newText = txt, edit_range = r\<rparr>)]"

definition builder_insert ::
  "WorkspaceEditBuilder \<Rightarrow> string \<Rightarrow> Position \<Rightarrow> string \<Rightarrow> WorkspaceEditBuilder" where
  "builder_insert builder resource pos txt = builder @ [(resource, TextEdit_insert pos txt)]"

record Command =
  command_name :: string
  command_title :: string
  command_arguments :: "string \<times> Position"

record CodeAction =
  action_title :: string
  action_kind :: string
  action_disabled :: "string option"
  action_edit :: "WorkspaceEditBuilder option"
  action_command :: "Command option"

definition genericTitle :: string where
  "genericTitle = ''Extract to link definition''"

definition extract_kind :: string where
  "extract_kind = ''refactor.extract'' @ ''.linkDefinition''"

definition notOnLinkAction :: CodeAction where
  "notOnLinkAction =
     \<lparr>action_title = genericTitle, action_kind = extract_kind,
      action_disabled = Some ''Not on link'', action_edit = None, action_command = None\<rparr>"

definition alreadyRefLinkAction :: CodeAction where
  "alreadyRefLinkAction =
     \<lparr>action_title = genericTitle, action_kind = extract_kind,
      action_disabled = Some ''Link is already a reference'', action_edit = None,
      action_command = None\<rparr>"

text \<open>\<^verbatim>\<open>context.only\<close> is absent or a list of kinds.\<close>

definition isEnabled :: "string list option \<Rightarrow> bool" where
  "isEnabled only =
     (case only of
        None \<Rightarrow> True
      | Some kinds \<Rightarrow> list_ex (\<lambda>k. codeActionKindContains ''refactor'' k) kinds)"

definition matchesHref :: "LinkHref \<Rightarrow> MdLink \<Rightarrow> bool" where
  "matchesHref h link =
     (case (href link, h) of
        (External u, External v) \<Rightarrow> isSameResource u v
      | (Internal p f, Internal q g) \<Rightarrow> isSameResource p q \<and> f = g
      | _ \<Rightarrow> False)"

definition getLinkTargetText :: "ITextDocument \<Rightarrow> MdLink \<Rightarrow> string" where
  "getLinkTargetText doc link =
     (let afterHrefRange =
            (if kind link = AutoLink then src_targetRange (source link)
             else \<lparr>range_start = translatePosition (range_start (src_targetRange (source link))) 1,
                   range_end = translatePosition (range_end (src_targetRange (source link))) (- 1)\<rparr>)
      in getText doc afterHrefRange)"

text \<open>
  The placeholder names \<^verbatim>\<open>def\<close>, \<^verbatim>\<open>def2\<close>, \<^verbatim>\<open>def3\<close>, ...: the number is written in
  decimal, as the template string does.
\<close>

definition digit_char :: "nat \<Rightarrow> char" where
  "digit_char d = ''0123456789'' ! d"

fun decimal :: "nat \<Rightarrow> string" where
  "decimal n = (if n < 10 then [digit_char n] else decimal (n div 10) @ [digit_char (n mod 10)])"

declare decimal.simps [simp del]

definition placeholder_name :: "nat \<Rightarrow> string" where
  "placeholder_name i = (if i = 1 then ''def'' else ''def'' @ decimal i)"


text \<open>
  The names are pairwise different and are their own normal forms, so only finitely
  many of them are keys of a definition set: the loop of \<^verbatim>\<open>#getPlaceholder\<close> ends.
\<close>

definition undecimal :: "string \<Rightarrow> nat" where
  "undecimal s = foldl (\<lambda>acc c. acc * 10 + (of_char c - 48)) 0 s"

lemma digit_char_cases:
  "d < 10 \<Longrightarrow> d = 0 \<or> d = 1 \<or> d = 2 \<or> d = 3 \<or> d = 4 \<or> d = 5 \<or> d = 6 \<or> d = 7 \<or> d = 8 \<or> d = (9::nat)"
  by arith

lemma digit_char_val: "d < 10 \<Longrightarrow> (of_char (digit_char d) :: nat) - 48 = d"
  using digit_char_cases [of d] by (auto simp: digit_char_def)

lemma digit_char_plain:
  "d < 10 \<Longrightarrow> \<not> isWhitespaceChar (digit_char d) \<and> toLowerChar (digit_char d) = digit_char d"
  using digit_char_cases [of d]
  by (auto simp: digit_char_def isWhitespaceChar_def toLowerChar_def LF_def CR_def)

lemma undecimal_decimal: "undecimal (decimal n) = n"
proof (induction n rule: decimal.induct)
  case (1 n)
  show ?case
  proof (cases "n < 10")
    case True
    then show ?thesis by (subst decimal.simps) (simp add: undecimal_def digit_char_val)
  next
    case False
    have "undecimal (decimal n) = undecimal (decimal (n div 10)) * 10 + (of_char (digit_char (n mod 10)) - 48)"
      using False by (subst decimal.simps) (simp add: undecimal_def)
    also have "\<dots> = (n div 10) * 10 + n mod 10"
      using 1 False by (simp add: digit_char_val)
    finally show ?thesis by simp
  qed
qed

lemma decimal_inj: "decimal m = decimal n \<Longrightarrow> m = n"
  by (metis undecimal_decimal)

lemma decimal_nonempty: "decimal n \<noteq> []"
  by (subst decimal.simps) simp

lemma decimal_plain:
  "c \<in> set (decimal n) \<Longrightarrow> \<not> isWhitespaceChar c \<and> toLowerChar c = c"
proof (induction n rule: decimal.induct)
  case (1 n)
  show ?case
  proof (cases "n < 10")
    case True
    with 1(2) have "c = digit_char n" by (subst (asm) decimal.simps) simp
    with True show ?thesis by (simp add: digit_char_plain)
  next
    case False
    with 1(2) have "c \<in> set (decimal (n div 10)) \<or> c = digit_char (n mod 10)"
      by (subst (asm) decimal.simps) auto
    then show ?thesis
      using 1(1) False digit_char_plain [of "n mod 10"] by auto
  qed
qed

lemma placeholder_name_inj: "placeholder_name i = placeholder_name j \<Longrightarrow> i = j"
  using decimal_nonempty [of i] decimal_nonempty [of j]
  by (auto simp: placeholder_name_def dest: decimal_inj split: if_splits)

lemma placeholder_name_plain:
  "c \<in> set (placeholder_name i) \<Longrightarrow> \<not> isWhitespaceChar c \<and> toLowerChar c = c"
  using decimal_plain [of c i]
  by (auto simp: placeholder_name_def isWhitespaceChar_def toLowerChar_def LF_def CR_def
      split: if_splits)

lemma dropWhile_none: "\<forall>c\<in>set s. \<not> P c \<Longrightarrow> dropWhile P s = s"
  by (cases s) auto

lemma trim_plain: "\<forall>c\<in>set s. \<not> isWhitespaceChar c \<Longrightarrow> trim s = s"
  by (simp add: trim_def dropWhile_none)

lemma normalizeRefName_placeholder: "normalizeRefName (placeholder_name i) = placeholder_name i"
proof -
  have "trim (placeholder_name i) = placeholder_name i"
    using placeholder_name_plain by (intro trim_plain) blast
  moreover have "map toLowerChar (placeholder_name i) = placeholder_name i"
    using placeholder_name_plain by (intro map_idI) blast
  ultimately show ?thesis by (simp add: normalizeRefName_def)
qed

lemma lookup_placeholder:
  "lookup defs (placeholder_name i) \<noteq> None \<longleftrightarrow> placeholder_name i \<in> fst ` set defs"
  by (simp add: lookup_def normalizeRefName_placeholder map_of_eq_None_iff)

lemma taken_finite: "finite {j. lookup defs (placeholder_name j) \<noteq> None}"
proof -
  have "finite (placeholder_name -` (fst ` set defs))"
    by (intro finite_vimageI) (auto simp: inj_on_def dest: placeholder_name_inj)
  moreover have "{j. lookup defs (placeholder_name j) \<noteq> None} = placeholder_name -` (fst ` set defs)"
    using lookup_placeholder by auto
  ultimately show ?thesis by simp
qed

text \<open>The loop of \<^verbatim>\<open>#getPlaceholder\<close>, from the counter \<open>i\<close> on.\<close>

function getPlaceholder_from :: "LinkDefinitionSet \<Rightarrow> nat \<Rightarrow> string" where
  "getPlaceholder_from defs i =
     (let name = placeholder_name i
      in if lookup defs name = None then name else getPlaceholder_from defs (i + 1))"
  by pat_completeness auto
termination
proof (relation "measure (\<lambda>(defs, i). card {j. i \<le> j \<and> lookup defs (placeholder_name j) \<noteq> None})")
  show "wf (measure (\<lambda>(defs, i). card {j. i \<le> j \<and> lookup defs (placeholder_name j) \<noteq> None}))"
    by simp
next
  fix defs :: LinkDefinitionSet and i :: nat and x :: string
  assume x: "x = placeholder_name i" and taken: "lookup defs x \<noteq> None"
  let ?S = "\<lambda>k. {j. k \<le> j \<and> lookup defs (placeholder_name j) \<noteq> None}"
  have fin: "finite (?S i)"
    using taken_finite [of defs] by (rule rev_finite_subset) auto
  have "i \<in> ?S i" "i \<notin> ?S (i + 1)" "?S (i + 1) \<subseteq> ?S i"
    using x taken by auto
  then have "?S (i + 1) \<subset> ?S i"
    by blast
  then have "card (?S (i + 1)) < card (?S i)"
    using fin by (simp add: psubset_card_mono)
  then show "((defs, i + 1), (defs, i))
      \<in> measure (\<lambda>(defs, i). card {j. i \<le> j \<and> lookup defs (placeholder_name j) \<noteq> None})"
    by simp
qed

declare getPlaceholder_from.simps [simp del]

definition getPlaceholder :: "LinkDefinitionSet \<Rightarrow> string" where
  "getPlaceholder defs = getPlaceholder_from defs 1"

text \<open>
  \<^verbatim>\<open>#getExtractLinkAction\<close>. The loop over the links threads the edit builder; the
  insertion edit of the new definition is added last.
\<close>

definition rewrite_step ::
  "string \<Rightarrow> string \<Rightarrow> MdLink \<Rightarrow> WorkspaceEditBuilder \<Rightarrow> MdLink \<Rightarrow> WorkspaceEditBuilder" where
  "rewrite_step resource placeholder targetLink builder link =
     (if kind link = Link \<or> kind link = AutoLink
      then if matchesHref (href targetLink) link
           then let targetRange = (if kind link = AutoLink then src_range (source link)
                                   else src_targetRange (source link))
                in builder_replace builder resource targetRange (''['' @ placeholder @ '']'')
           else builder
      else builder)"

definition getExtractLinkAction ::
  "ITextDocument \<Rightarrow> MdDocumentLinksInfo \<Rightarrow> MdLink \<Rightarrow> CodeAction" where
  "getExtractLinkAction doc linkInfo targetLink =
     (let resource = getDocUri doc;
          placeholder = getPlaceholder (definitions linkInfo);
          builder = foldl (rewrite_step resource placeholder targetLink) [] (links linkInfo);
          definitionText = trim (getLinkTargetText doc targetLink);
          defs = filter (\<lambda>link. kind link = Definition) (links linkInfo);
          defEdit = createAddDefinitionEdit doc defs [(definitionText, placeholder)];
          builder' = builder_insert builder resource (range_start (edit_range defEdit))
                       (newText defEdit);
          renamePosition = translatePosition (range_start (src_targetRange (source targetLink))) 1
      in \<lparr>action_title = genericTitle,
          action_kind = extract_kind,
          action_disabled = None,
          action_edit = Some builder',
          action_command =
            Some \<lparr>command_name = ''vscodeMarkdownLanguageservice.rename'',
                  command_title = ''Rename'',
                  command_arguments = (getDocUri doc, renamePosition)\<rparr>\<rparr>)"

definition is_extractable :: "MdLink \<Rightarrow> bool" where
  "is_extractable link =
     (case href link of External u \<Rightarrow> True | Internal p f \<Rightarrow> True | Reference r \<Rightarrow> False)"

definition getActions ::
  "(Range \<Rightarrow> Range \<Rightarrow> bool) \<Rightarrow> ITextDocument \<Rightarrow> Range \<Rightarrow> string list option \<Rightarrow> bool
     \<Rightarrow> MdDocumentLinksInfo \<Rightarrow> CodeAction list" where
  "getActions rangeIntersects doc rng only isCancellationRequested linkInfo =
     (if \<not> isEnabled only then []
      else if isCancellationRequested then []
      else
        let linksInRange =
              filter (\<lambda>link. kind link \<noteq> Definition \<and> rangeIntersects rng (src_range (source link)))
                (links linkInfo)
        in if linksInRange = [] then [notOnLinkAction]
           else
             let sorted_links =
                   Array_sort (\<lambda>a b. comparePosition (range_start (src_range (source b)))
                                          (range_start (src_range (source a))))
                     linksInRange
             in case find is_extractable sorted_links of
                  None \<Rightarrow> [alreadyRefLinkAction]
                | Some targetLink \<Rightarrow> [getExtractLinkAction doc linkInfo targetLink])"

section \<open>Edits that do not overlap\<close>

text \<open>
  Two ranges do not overlap when one ends at or before the start of the other, in the
  order of positions (line, then character). The edits of a list are pairwise
  non-overlapping when this holds of the ranges of every two of them.
\<close>

definition ranges_disjoint :: "Range \<Rightarrow> Range \<Rightarrow> bool" where
  "ranges_disjoint a b =
     (comparePosition (range_end a) (range_start b) \<le> 0 \<or>
      comparePosition (range_end b) (range_start a) \<le> 0)"

definition ranges_non_overlapping :: "Range list \<Rightarrow> bool" where
  "ranges_non_overlapping rs =
     (\<forall>i j. i < j \<and> j < length rs \<longrightarrow> ranges_disjoint (rs ! i) (rs ! j))"

definition non_overlapping :: "TextEdit list \<Rightarrow> bool" where
  "non_overlapping es = ranges_non_overlapping (map edit_range es)"

text \<open>
  The range that the Extractor rewrites on a link, and a range that lies within the text
  of one line of the document.
\<close>

definition rewrite_range :: "MdLink \<Rightarrow> Range" where
  "rewrite_range link =
     (if kind link = AutoLink then src_range (source link) else src_targetRange (source link))"

definition within_line :: "ITextDocument \<Rightarrow> Range \<Rightarrow> bool" where
  "within_line doc r =
     (line (range_start r) = line (range_end r) \<and> line (range_end r) < lineCount doc \<and>
      character (range_end r) \<le> length (getLine doc (line (range_end r))))"

section \<open>Applying edits\<close>






section \<open>Example documents\<close>

text \<open>
  A definition \<^verbatim>\<open>[label]: target\<close> that fills line \<open>n\<close>, and a document with three
  definitions, the last two of them a trailing block.
\<close>

definition definition_at :: "nat \<Rightarrow> string \<Rightarrow> string \<Rightarrow> MdLink" where
  "definition_at n label target =
     \<lparr>kind = Definition,
      source = \<lparr>src_range = Range_create n 0 n (length label + length target + 4),
                src_targetRange = Range_create n (length label + 4) n (length label + length target + 4),
                src_hrefText = target\<rparr>,
      href = Internal target [],
      ref = \<lparr>ref_range = Range_create n 1 n (length label + 1), ref_text = label\<rparr>\<rparr>"

definition example_doc :: ITextDocument where
  "example_doc =
     \<lparr>doc_uri = ''file:///example.md'',
      doc_lines = [''# Title'', ''[b]: /b.md'', ''text [x][a]'', ''[c]: /c.md'', ''[a]: /a.md'', ''  ''],
      doc_eol = [LF]\<rparr>"

definition example_defs :: "MdLink list" where
  "example_defs = [definition_at 1 ''b'' ''/b.md'', definition_at 3 ''c'' ''/c.md'', definition_at 4 ''a'' ''/a.md'']"

text \<open>Three definitions, two of them with one normalized label.\<close>

definition example_set_links :: "MdLink list" where
  "example_set_links =
     [definition_at 0 ''def'' ''/x.md'', definition_at 1 '' DEF2 '' ''/y.md'',
      definition_at 2 ''Def'' ''/z.md'']"

definition example_set :: LinkDefinitionSet where
  "example_set = LinkDefinitionSet_create example_set_links"

text \<open>A reference link \<^verbatim>\<open>[text][label]\<close> at a line and column, and an inline link.\<close>

definition reference_at :: "nat \<Rightarrow> nat \<Rightarrow> string \<Rightarrow> string \<Rightarrow> MdLink" where
  "reference_at n col txt label =
     \<lparr>kind = Link,
      source = \<lparr>src_range = Range_create n col n (col + length txt + length label + 4),
                src_targetRange = Range_create n (col + length txt + 2) n
                                    (col + length txt + length label + 4),
                src_hrefText = label\<rparr>,
      href = Reference label,
      ref = \<lparr>ref_range = Range_create 0 0 0 0, ref_text = []\<rparr>\<rparr>"

definition inline_at :: "nat \<Rightarrow> nat \<Rightarrow> string \<Rightarrow> string \<Rightarrow> MdLink" where
  "inline_at n col txt target =
     \<lparr>kind = Link,
      source = \<lparr>src_range = Range_create n col n (col + length txt + length target + 4),
                src_targetRange = Range_create n (col + length txt + 2) n
                                    (col + length txt + length target + 4),
                src_hrefText = target\<rparr>,
      href = External target,
      ref = \<lparr>ref_range = Range_create 0 0 0 0, ref_text = []\<rparr>\<rparr>"

definition example_links :: "MdLink list" where
  "example_links =
     [definition_at 1 ''b'' ''/b.md'', reference_at 2 5 ''x'' ''a'',
      definition_at 3 ''c'' ''/c.md'', definition_at 4 ''a'' ''/a.md'']"

definition example_info :: MdDocumentLinksInfo where
  "example_info = \<lparr>links = example_links, definitions = LinkDefinitionSet_create example_links\<rparr>"

text \<open>A comparator for the examples: the order of the character codes.\<close>

definition example_compare :: "string \<Rightarrow> string \<Rightarrow> int" where
  "example_compare a b = (if a < b then - 1 else if a = b then 0 else 1)"

text \<open>
  A document whose only definition is referenced with another letter case:
  \<^verbatim>\<open>see [t][foo]\<close>, an empty line, \<^verbatim>\<open>[Foo]: /x.md\<close>.
\<close>

definition case_doc :: ITextDocument where
  "case_doc =
     \<lparr>doc_uri = ''file:///case.md'', doc_lines = [''see [t][foo]'', [], ''[Foo]: /x.md''],
      doc_eol = [LF]\<rparr>"

definition case_links :: "MdLink list" where
  "case_links = [reference_at 0 4 ''t'' ''foo'', definition_at 2 ''Foo'' ''/x.md'']"

definition case_info :: MdDocumentLinksInfo where
  "case_info = \<lparr>links = case_links, definitions = LinkDefinitionSet_create case_links\<rparr>"

text \<open>A document whose definitions are one sorted trailing block, all of them referenced.\<close>

definition organized_doc :: ITextDocument where
  "organized_doc =
     \<lparr>doc_uri = ''file:///organized.md'',
      doc_lines = [''# Title'', ''see [x][a] and [y][b]'', [], ''[a]: /a.md'', ''[b]: /b.md''],
      doc_eol = [LF]\<rparr>"

definition organized_links :: "MdLink list" where
  "organized_links =
     [reference_at 1 4 ''x'' ''a'', reference_at 1 15 ''y'' ''b'',
      definition_at 3 ''a'' ''/a.md'', definition_at 4 ''b'' ''/b.md'']"

definition organized_info :: MdDocumentLinksInfo where
  "organized_info =
     \<lparr>links = organized_links, definitions = LinkDefinitionSet_create organized_links\<rparr>"

text \<open>
  Two inline links to one destination and no definition:
  \<^verbatim>\<open>[a](http://x) and [b](http://x)\<close>.
\<close>

definition shared_doc :: ITextDocument where
  "shared_doc =
     \<lparr>doc_uri = ''file:///shared.md'', doc_lines = [''[a](http://x) and [b](http://x)''],
      doc_eol = [LF]\<rparr>"

definition shared_links :: "MdLink list" where
  "shared_links = [inline_at 0 0 ''a'' ''http://x'', inline_at 0 18 ''b'' ''http://x'']"

definition shared_info :: MdDocumentLinksInfo where
  "shared_info = \<lparr>links = shared_links, definitions = LinkDefinitionSet_create shared_links\<rparr>"

definition empty_info :: MdDocumentLinksInfo where
  "empty_info = \<lparr>links = [], definitions = []\<rparr>"

text \<open>
  A definition whose label runs over two lines, \<^verbatim>\<open>[foo\<close> and \<^verbatim>\<open>bar]: /x.md\<close>, from line
  \<open>n\<close> to line \<open>n + 1\<close>.
\<close>

definition two_line_definition_at :: "nat \<Rightarrow> MdLink" where
  "two_line_definition_at n =
     \<lparr>kind = Definition,
      source = \<lparr>src_range = Range_create n 0 (n + 1) 11,
                src_targetRange = Range_create (n + 1) 6 (n + 1) 11,
                src_hrefText = ''/x.md''\<rparr>,
      href = Internal ''/x.md'' [],
      ref = \<lparr>ref_range = Range_create n 1 (n + 1) 3, ref_text = ''foo'' @ [LF] @ ''bar''\<rparr>\<rparr>"

definition two_line_doc :: ITextDocument where
  "two_line_doc =
     \<lparr>doc_uri = ''file:///two.md'', doc_lines = [''text'', ''[foo'', ''bar]: /x.md''],
      doc_eol = [LF]\<rparr>"

text \<open>An intersection test for the examples: two ranges that share a position.\<close>

definition ranges_touch :: "Range \<Rightarrow> Range \<Rightarrow> bool" where
  "ranges_touch a b =
     (comparePosition (range_start a) (range_end b) \<le> 0 \<and>
      comparePosition (range_start b) (range_end a) \<le> 0)"

text \<open>
  A definition whose target in angle brackets runs over two lines, \<^verbatim>\<open>[a]: <b\<close> and
  \<^verbatim>\<open>c>\<close>, as the link provider reports it: the range stays on the line where the
  definition starts and the target text holds the line break. The second document is
  the first one after the edits of the Organizer.
\<close>

definition wrapped_definition_at :: "nat \<Rightarrow> MdLink" where
  "wrapped_definition_at n =
     \<lparr>kind = Definition,
      source = \<lparr>src_range = Range_create n 0 n 10,
                src_targetRange = Range_create n 6 n 9,
                src_hrefText = ''b'' @ [LF] @ ''c''\<rparr>,
      href = Internal (''b'' @ [LF] @ ''c'') [],
      ref = \<lparr>ref_range = Range_create n 1 n 2, ref_text = ''a''\<rparr>\<rparr>"

definition wrapped_doc :: ITextDocument where
  "wrapped_doc =
     \<lparr>doc_uri = ''file:///wrapped.md'', doc_lines = [''[a]: <b'', ''c>''], doc_eol = [LF]\<rparr>"

definition wrapped_info :: MdDocumentLinksInfo where
  "wrapped_info =
     \<lparr>links = [wrapped_definition_at 0],
      definitions = LinkDefinitionSet_create [wrapped_definition_at 0]\<rparr>"



text \<open>
  A document whose lines are separated by lone carriage returns: \<^verbatim>\<open>[a]: /a.md\<close>,
  \<^verbatim>\<open>one\<close>, \<^verbatim>\<open>two\<close>.
\<close>

definition cr_doc :: ITextDocument where
  "cr_doc =
     \<lparr>doc_uri = ''file:///cr.md'', doc_lines = [''[a]: /a.md'', ''one'', ''two''],
      doc_eol = [CR]\<rparr>"

definition cr_info :: MdDocumentLinksInfo where
  "cr_info =
     \<lparr>links = [definition_at 0 ''a'' ''/a.md''],
      definitions = LinkDefinitionSet_create [definition_at 0 ''a'' ''/a.md'']\<rparr>"

text \<open>
  An inline link whose target is written in angle brackets, \<^verbatim>\<open>[a](<http://x>)\<close>, and
  the autolink that the angle brackets form inside it.
\<close>

definition nested_doc :: ITextDocument where
  "nested_doc =
     \<lparr>doc_uri = ''file:///nested.md'', doc_lines = [''[a](<http://x>)''], doc_eol = [LF]\<rparr>"

definition nested_inline :: MdLink where
  "nested_inline =
     \<lparr>kind = Link,
      source = \<lparr>src_range = Range_create 0 0 0 15, src_targetRange = Range_create 0 3 0 15,
                src_hrefText = ''http://x''\<rparr>,
      href = External ''http://x'',
      ref = \<lparr>ref_range = Range_create 0 0 0 0, ref_text = []\<rparr>\<rparr>"

definition nested_autolink :: MdLink where
  "nested_autolink =
     \<lparr>kind = AutoLink,
      source = \<lparr>src_range = Range_create 0 4 0 14, src_targetRange = Range_create 0 5 0 13,
                src_hrefText = ''http://x''\<rparr>,
      href = External ''http://x'',
      ref = \<lparr>ref_range = Range_create 0 0 0 0, ref_text = []\<rparr>\<rparr>"

definition nested_info :: MdDocumentLinksInfo where
  "nested_info =
     \<lparr>links = [nested_inline, nested_autolink],
      definitions = LinkDefinitionSet_create [nested_inline, nested_autolink]\<rparr>"

section \<open>Sorting with a consistent comparator\<close>

lemma mset_insort_cmp: "mset (insort_cmp c x xs) = add_mset x (mset xs)"
  by (induction xs) auto

lemma mset_Array_sort: "mset (Array_sort c xs) = mset xs"
  by (induction xs) (auto simp: Array_sort_def mset_insort_cmp)

lemma set_Array_sort: "set (Array_sort c xs) = set xs"
  by (metis mset_Array_sort set_mset_mset)


lemma set_insort_cmp: "set (insort_cmp c x xs) = insert x (set xs)"
  by (metis mset_insort_cmp set_mset_mset set_mset_add_mset_insert)

lemma consistent_comparator_total:
  "consistent_comparator c \<Longrightarrow> \<not> c a b \<le> 0 \<Longrightarrow> c b a \<le> 0"
  unfolding consistent_comparator_def by blast

lemma consistent_comparator_trans:
  "consistent_comparator c \<Longrightarrow> c a b \<le> 0 \<Longrightarrow> c b d \<le> 0 \<Longrightarrow> c a d \<le> 0"
  unfolding consistent_comparator_def by blast

lemma consistent_comparator_key:
  "consistent_comparator c \<Longrightarrow> consistent_comparator (\<lambda>a b. c (f a) (f b))"
  unfolding consistent_comparator_def by blast

lemma sorted_insort_cmp:
  assumes "consistent_comparator c" and "sorted_wrt (\<lambda>a b. c a b \<le> 0) xs"
  shows "sorted_wrt (\<lambda>a b. c a b \<le> 0) (insort_cmp c x xs)"
  using assms(2)
proof (induction xs)
  case Nil
  show ?case by simp
next
  case (Cons y ys)
  show ?case
  proof (cases "c x y \<le> 0")
    case True
    have "\<forall>z \<in> set ys. c x z \<le> 0"
      using Cons.prems True consistent_comparator_trans [OF assms(1)] by auto
    with True Cons.prems show ?thesis by simp
  next
    case False
    then have "c y x \<le> 0"
      by (rule consistent_comparator_total [OF assms(1)])
    with False Cons show ?thesis
      by (auto simp: set_insort_cmp)
  qed
qed

lemma sorted_Array_sort:
  "consistent_comparator c \<Longrightarrow> sorted_wrt (\<lambda>a b. c a b \<le> 0) (Array_sort c xs)"
  by (induction xs) (auto simp: Array_sort_def sorted_insort_cmp)


text \<open>Stability: the elements of one key keep their order.\<close>

lemma filter_insort_cmp:
  assumes "consistent_comparator c" and "sorted_wrt (\<lambda>a b. c a b \<le> 0) xs"
  shows "filter (\<lambda>y. c y k \<le> 0 \<and> c k y \<le> 0) (insort_cmp c x xs) =
         filter (\<lambda>y. c y k \<le> 0 \<and> c k y \<le> 0) (x # xs)"
  using assms(2)
proof (induction xs)
  case Nil
  show ?case by simp
next
  case (Cons y ys)
  show ?case
  proof (cases "c x y \<le> 0")
    case True
    then show ?thesis by simp
  next
    case False
    then have yx: "c y x \<le> 0"
      by (rule consistent_comparator_total [OF assms(1)])
    have ih: "filter (\<lambda>y. c y k \<le> 0 \<and> c k y \<le> 0) (insort_cmp c x ys) =
         filter (\<lambda>y. c y k \<le> 0 \<and> c k y \<le> 0) (x # ys)"
      using Cons by simp
    have "\<not> ((c x k \<le> 0 \<and> c k x \<le> 0) \<and> (c y k \<le> 0 \<and> c k y \<le> 0))"
      using False consistent_comparator_trans [OF assms(1)] by blast
    with False ih show ?thesis by auto
  qed
qed

lemma Array_sort_stable:
  assumes "consistent_comparator c"
  shows "filter (\<lambda>y. c y k \<le> 0 \<and> c k y \<le> 0) (Array_sort c xs) =
         filter (\<lambda>y. c y k \<le> 0 \<and> c k y \<le> 0) xs"
proof (induction xs)
  case Nil
  show ?case by (simp add: Array_sort_def)
next
  case (Cons x xs)
  have "filter (\<lambda>y. c y k \<le> 0 \<and> c k y \<le> 0) (Array_sort c (x # xs)) =
        filter (\<lambda>y. c y k \<le> 0 \<and> c k y \<le> 0) (x # Array_sort c xs)"
    using filter_insort_cmp [OF assms sorted_Array_sort [OF assms]]
    by (simp add: Array_sort_def)
  with Cons show ?case by simp
qed

section \<open>Lines of a text\<close>

lemma split_lines_line:
  "LF \<notin> set l \<Longrightarrow> CR \<notin> set l \<Longrightarrow> split_lines (l @ LF # rest) = l # split_lines rest"
  by (induction l) auto

lemma split_lines_single:
  "LF \<notin> set l \<Longrightarrow> CR \<notin> set l \<Longrightarrow> split_lines l = [l]"
  by (induction l) auto

lemma split_lines_join:
  "ls \<noteq> [] \<Longrightarrow> \<forall>l \<in> set ls. LF \<notin> set l \<and> CR \<notin> set l \<Longrightarrow> split_lines (join [LF] ls) = ls"
proof (induction ls)
  case Nil
  then show ?case by simp
next
  case (Cons x xs)
  show ?case
  proof (cases xs)
    case Nil
    with Cons.prems show ?thesis by (simp add: split_lines_single)
  next
    case (Cons y ys)
    with Cons.IH Cons.prems have "split_lines (join [LF] (y # ys)) = y # ys"
      by simp
    with Cons Cons.prems show ?thesis
      by (simp add: split_lines_line)
  qed
qed

lemma split_lines_line_crlf:
  "LF \<notin> set l \<Longrightarrow> CR \<notin> set l \<Longrightarrow> split_lines (l @ CR # LF # rest) = l # split_lines rest"
  by (induction l) (auto simp: CR_def LF_def)

lemma split_lines_join_crlf:
  "ls \<noteq> [] \<Longrightarrow> \<forall>l \<in> set ls. LF \<notin> set l \<and> CR \<notin> set l \<Longrightarrow>
     split_lines (join [CR, LF] ls) = ls"
proof (induction ls)
  case Nil
  then show ?case by simp
next
  case (Cons x xs)
  show ?case
  proof (cases xs)
    case Nil
    with Cons.prems show ?thesis by (simp add: split_lines_single)
  next
    case (Cons y ys)
    with Cons.IH Cons.prems have "split_lines (join [CR, LF] (y # ys)) = y # ys"
      by simp
    with Cons Cons.prems show ?thesis
      by (simp add: split_lines_line_crlf)
  qed
qed

lemma join_lines_blank:
  assumes "list_all isWhitespaceChar sep"
  shows "isEmptyOrWhitespace (join sep ls) \<longleftrightarrow> (\<forall>l \<in> set ls. isEmptyOrWhitespace l)"
proof (induction ls)
  case Nil
  show ?case by (simp add: isEmptyOrWhitespace_def)
next
  case (Cons x xs)
  then show ?case
    using assms by (cases xs) (auto simp: isEmptyOrWhitespace_def)
qed

section \<open>Block Locator: properties\<close>

lemma consecutive_snoc:
  "xs \<noteq> [] \<Longrightarrow> consecutive (xs @ [y]) = (consecutive xs \<and> y = Suc (last xs))"
  by (induction xs rule: consecutive.induct) auto

lemma walk_back_split:
  "sorted_wrt (<) (map start_line (xs @ [p])) \<Longrightarrow>
   \<exists>pre blk. xs @ [p] = pre @ blk \<and> blk \<noteq> [] \<and> walk_back p (rev xs) = hd blk \<and>
     consecutive (map start_line blk) \<and>
     (pre = [] \<or> start_line (last pre) + 1 \<noteq> start_line (hd blk))"
proof (induction xs arbitrary: p rule: rev_induct)
  case Nil
  show ?case by (rule exI [of _ "[]"], rule exI [of _ "[p]"]) simp
next
  case (snoc d xs)
  have lt: "start_line d < start_line p"
    using snoc.prems by (simp add: sorted_wrt_append)
  show ?case
  proof (cases "int (start_line d) < int (start_line p) - 1")
    case True
    show ?thesis
      by (rule exI [of _ "xs @ [d]"], rule exI [of _ "[p]"]) (use True in auto)
  next
    case False
    with lt have adj: "start_line p = Suc (start_line d)" by linarith
    have "sorted_wrt (<) (map start_line (xs @ [d]))"
      using snoc.prems by (simp add: sorted_wrt_append)
    from snoc.IH [OF this] obtain pre blk where
      s: "xs @ [d] = pre @ blk" "blk \<noteq> []" "walk_back d (rev xs) = hd blk"
         "consecutive (map start_line blk)"
         "pre = [] \<or> start_line (last pre) + 1 \<noteq> start_line (hd blk)"
      by blast
    have l: "last blk = d" using s(1,2) by (metis last_appendR last_snoc)
    have wb: "walk_back p (rev (xs @ [d])) = hd (blk @ [p])"
      using False s(2,3) by simp
    have app: "(xs @ [d]) @ [p] = pre @ blk @ [p]"
      using s(1) by simp
    have cons: "consecutive (map start_line (blk @ [p]))"
      using s(2,4) adj l by (simp add: consecutive_snoc last_map)
    have brk: "pre = [] \<or> start_line (last pre) + 1 \<noteq> start_line (hd (blk @ [p]))"
      using s(2,5) by simp
    show ?thesis
      using wb app cons brk by blast
  qed
qed

lemma start_line_definition_at [simp]: "start_line (definition_at n l t) = n"
  by (simp add: start_line_def definition_at_def Range_create_def)

lemma end_line_definition_at [simp]: "end_line (definition_at n l t) = n"
  by (simp add: end_line_def definition_at_def Range_create_def)

text \<open>
  Claim C4 (Block Locator contract). For an empty definition list the locator returns
  none. When the text after the last definition's line has a character that is not
  whitespace it returns none. Otherwise, for definitions in document order, the
  definitions split into a prefix and a non-empty block of definitions on consecutive
  lines, the block being maximal (the definition before it, if any, is not on the line
  just above the block's first line): the result is the start line of the block's first
  definition and the start line of the last definition. A single definition with a blank
  tail gives a block of one line.
\<close>

theorem getExistingDefinitionBlock_contract:
  "getExistingDefinitionBlock doc [] = None \<and>
   (defs \<noteq> [] \<and> \<not> isEmptyOrWhitespace (getTextFromLine doc (end_line (last defs) + 1))
      \<longrightarrow> getExistingDefinitionBlock doc defs = None) \<and>
   (defs \<noteq> [] \<and> isEmptyOrWhitespace (getTextFromLine doc (end_line (last defs) + 1)) \<and>
    doc_ordered defs
      \<longrightarrow> (\<exists>pre blk. defs = pre @ blk \<and> blk \<noteq> [] \<and>
             consecutive (map start_line blk) \<and>
             (pre = [] \<or> start_line (last pre) + 1 \<noteq> start_line (hd blk)) \<and>
             getExistingDefinitionBlock doc defs =
               Some \<lparr>startLine = start_line (hd blk), endLine = start_line (last defs)\<rparr>)) \<and>
   (isEmptyOrWhitespace (getTextFromLine doc (end_line d + 1))
      \<longrightarrow> getExistingDefinitionBlock doc [d] =
            Some \<lparr>startLine = start_line d, endLine = start_line d\<rparr>)"
proof (intro conjI impI)
  show "getExistingDefinitionBlock doc [] = None"
    by (simp add: getExistingDefinitionBlock_def)
next
  assume "defs \<noteq> [] \<and> \<not> isEmptyOrWhitespace (getTextFromLine doc (end_line (last defs) + 1))"
  then show "getExistingDefinitionBlock doc defs = None"
    by (simp add: getExistingDefinitionBlock_def Let_def)
next
  assume a: "defs \<noteq> [] \<and> isEmptyOrWhitespace (getTextFromLine doc (end_line (last defs) + 1)) \<and>
    doc_ordered defs"
  then obtain xs p where xp: "defs = xs @ [p]"
    by (metis rev_exhaust)
  have "sorted_wrt (<) (map start_line (xs @ [p]))"
    using a xp by (simp add: doc_ordered_def)
  from walk_back_split [OF this] obtain pre blk where
    s: "xs @ [p] = pre @ blk" "blk \<noteq> []" "walk_back p (rev xs) = hd blk"
       "consecutive (map start_line blk)"
       "pre = [] \<or> start_line (last pre) + 1 \<noteq> start_line (hd blk)"
    by blast
  have "getExistingDefinitionBlock doc defs =
      Some \<lparr>startLine = start_line (hd blk), endLine = start_line (last defs)\<rparr>"
    using a s(3) by (simp add: getExistingDefinitionBlock_def Let_def xp)
  with s xp show "\<exists>pre blk. defs = pre @ blk \<and> blk \<noteq> [] \<and>
             consecutive (map start_line blk) \<and>
             (pre = [] \<or> start_line (last pre) + 1 \<noteq> start_line (hd blk)) \<and>
             getExistingDefinitionBlock doc defs =
               Some \<lparr>startLine = start_line (hd blk), endLine = start_line (last defs)\<rparr>"
    by blast
next
  assume "isEmptyOrWhitespace (getTextFromLine doc (end_line d + 1))"
  then show "getExistingDefinitionBlock doc [d] =
            Some \<lparr>startLine = start_line d, endLine = start_line d\<rparr>"
    by (simp add: getExistingDefinitionBlock_def Let_def)
qed

lemma blank_after_example:
  "isEmptyOrWhitespace (getTextFromLine example_doc (end_line (last example_defs) + 1))"
  by (simp add: example_defs_def example_doc_def getTextFromLine_def isEmptyOrWhitespace_def
      isWhitespaceChar_def)

theorem getExistingDefinitionBlock_contract_witness:
  "example_defs \<noteq> [] \<and>
   isEmptyOrWhitespace (getTextFromLine example_doc (end_line (last example_defs) + 1)) \<and>
   doc_ordered example_defs \<and>
   \<not> isEmptyOrWhitespace (getTextFromLine example_doc (end_line (last (butlast example_defs)) + 1)) \<and>
   getExistingDefinitionBlock example_doc (butlast example_defs) = None \<and>
   getExistingDefinitionBlock example_doc example_defs = Some \<lparr>startLine = 3, endLine = 4\<rparr> \<and>
   getExistingDefinitionBlock example_doc [definition_at 4 ''a'' ''/a.md''] =
     Some \<lparr>startLine = 4, endLine = 4\<rparr>"
proof -
  have ne: "example_defs \<noteq> []" "butlast example_defs \<noteq> []"
    by (simp_all add: example_defs_def)
  have ord: "doc_ordered example_defs"
    by (simp add: example_defs_def doc_ordered_def)
  have nb: "\<not> isEmptyOrWhitespace
      (getTextFromLine example_doc (end_line (last (butlast example_defs)) + 1))"
    by (simp add: example_defs_def example_doc_def getTextFromLine_def isEmptyOrWhitespace_def
        isWhitespaceChar_def LF_def CR_def)
  have b1: "isEmptyOrWhitespace (getTextFromLine example_doc (end_line (definition_at 4 ''a'' ''/a.md'') + 1))"
    using blank_after_example by (simp add: example_defs_def)
  note c1 = getExistingDefinitionBlock_contract [of example_doc "butlast example_defs"]
  note c2 = getExistingDefinitionBlock_contract [of example_doc example_defs "definition_at 4 ''a'' ''/a.md''"]
  have r1: "getExistingDefinitionBlock example_doc (butlast example_defs) = None"
    using c1 ne nb by blast
  from c2 ne ord blank_after_example obtain pre blk where
    s: "example_defs = pre @ blk" "blk \<noteq> []" "consecutive (map start_line blk)"
       "pre = [] \<or> start_line (last pre) + 1 \<noteq> start_line (hd blk)"
       "getExistingDefinitionBlock example_doc example_defs =
          Some \<lparr>startLine = start_line (hd blk), endLine = start_line (last example_defs)\<rparr>"
    by blast
  have r2: "getExistingDefinitionBlock example_doc example_defs = Some \<lparr>startLine = 3, endLine = 4\<rparr>"
    using blank_after_example
    by (simp add: getExistingDefinitionBlock_def example_defs_def Let_def)
  have r3: "getExistingDefinitionBlock example_doc [definition_at 4 ''a'' ''/a.md''] =
     Some \<lparr>startLine = 4, endLine = 4\<rparr>"
    using c2 b1 by simp
  show ?thesis using ne ord blank_after_example nb r1 r2 r3 by blast
qed

section \<open>Link Extractor: the placeholder\<close>

lemma getPlaceholder_from_first_free:
  "\<exists>i. k \<le> i \<and> getPlaceholder_from defs k = placeholder_name i \<and>
       lookup defs (placeholder_name i) = None \<and>
       (\<forall>j. k \<le> j \<and> j < i \<longrightarrow> lookup defs (placeholder_name j) \<noteq> None)"
proof (induction defs k rule: getPlaceholder_from.induct)
  case (1 defs k)
  show ?case
  proof (cases "lookup defs (placeholder_name k) = None")
    case True
    then have "getPlaceholder_from defs k = placeholder_name k"
      by (subst getPlaceholder_from.simps) (simp add: Let_def)
    with True show ?thesis
      by (intro exI [of _ k]) auto
  next
    case False
    from 1 [OF refl False] obtain i where
      i: "k + 1 \<le> i" "getPlaceholder_from defs (k + 1) = placeholder_name i"
         "lookup defs (placeholder_name i) = None"
         "\<forall>j. k + 1 \<le> j \<and> j < i \<longrightarrow> lookup defs (placeholder_name j) \<noteq> None"
      by blast
    have "getPlaceholder_from defs k = placeholder_name i"
      using False i(2) by (subst getPlaceholder_from.simps) (auto simp: Let_def)
    moreover have "\<forall>j. k \<le> j \<and> j < i \<longrightarrow> lookup defs (placeholder_name j) \<noteq> None"
    proof (intro allI impI)
      fix j assume "k \<le> j \<and> j < i"
      then have "j = k \<or> (k + 1 \<le> j \<and> j < i)" by arith
      then show "lookup defs (placeholder_name j) \<noteq> None"
        using False i(4) by blast
    qed
    ultimately show ?thesis
      using i(1,3) by (intro exI [of _ i]) simp
  qed
qed

lemma LinkDefinitionSet_add_keys:
  "fst ` set (LinkDefinitionSet_add defs link) =
     fst ` set defs \<union> (if kind link = Definition then {normalizeRefName (ref_text (ref link))} else {})"
  by (auto simp: LinkDefinitionSet_add_def lookup_def map_of_eq_None_iff)

lemma LinkDefinitionSet_foldl_keys:
  "fst ` set (foldl LinkDefinitionSet_add acc ls) =
     fst ` set acc \<union> {normalizeRefName (ref_text (ref d)) | d. d \<in> set ls \<and> kind d = Definition}"
proof (induction ls arbitrary: acc)
  case Nil
  show ?case by simp
next
  case (Cons l ls)
  show ?case
    unfolding foldl_Cons Cons.IH LinkDefinitionSet_add_keys by auto
qed

lemma LinkDefinitionSet_create_keys:
  "fst ` set (LinkDefinitionSet_create ls) =
     {normalizeRefName (ref_text (ref d)) | d. d \<in> set ls \<and> kind d = Definition}"
  by (simp add: LinkDefinitionSet_create_def LinkDefinitionSet_foldl_keys)

text \<open>
  Claim C6 (placeholder uniqueness and minimality). For every definition set the
  placeholder is \<open>placeholder_name i\<close> for the first \<open>i\<close> from 1 whose lookup in the set
  fails: the lookup of every earlier name of the sequence def, def2, def3, ... succeeds.
  Its normalized form is no key of the set, and for the set built from a list of links
  it differs from the normalized label of every definition among them. The loop is a
  total function: it ends for every definition set.
\<close>

theorem getPlaceholder_first_free:
  "\<exists>i. 1 \<le> i \<and> getPlaceholder defs = placeholder_name i \<and>
       lookup defs (getPlaceholder defs) = None \<and>
       (\<forall>j. 1 \<le> j \<and> j < i \<longrightarrow> lookup defs (placeholder_name j) \<noteq> None) \<and>
       normalizeRefName (getPlaceholder defs) \<notin> fst ` set defs \<and>
       (\<forall>d \<in> set ls. kind d = Definition \<longrightarrow>
          normalizeRefName (ref_text (ref d))
            \<noteq> normalizeRefName (getPlaceholder (LinkDefinitionSet_create ls)))"
proof -
  have free: "normalizeRefName (getPlaceholder s) \<notin> fst ` set s" for s
  proof -
    from getPlaceholder_from_first_free [of 1 s] obtain i where
      "getPlaceholder s = placeholder_name i" "lookup s (placeholder_name i) = None"
      by (auto simp: getPlaceholder_def)
    then show ?thesis
      by (simp add: lookup_def map_of_eq_None_iff)
  qed
  from getPlaceholder_from_first_free [of 1 defs] obtain i where
    i: "1 \<le> i" "getPlaceholder defs = placeholder_name i"
       "lookup defs (placeholder_name i) = None"
       "\<forall>j. 1 \<le> j \<and> j < i \<longrightarrow> lookup defs (placeholder_name j) \<noteq> None"
    by (auto simp: getPlaceholder_def)
  have snap: "\<forall>d \<in> set ls. kind d = Definition \<longrightarrow>
          normalizeRefName (ref_text (ref d))
            \<noteq> normalizeRefName (getPlaceholder (LinkDefinitionSet_create ls))"
    using free [of "LinkDefinitionSet_create ls"]
    unfolding LinkDefinitionSet_create_keys by auto
  show ?thesis
    using i free [of defs] snap by (intro exI [of _ i]) simp
qed

theorem getPlaceholder_first_free_witness:
  "getPlaceholder example_set = ''def3'' \<and>
   lookup example_set ''def'' \<noteq> None \<and> lookup example_set ''def2'' \<noteq> None \<and>
   lookup example_set ''def3'' = None \<and>
   normalizeRefName ''def3'' \<notin> fst ` set example_set \<and>
   definition_at 1 '' DEF2 '' ''/y.md'' \<in> set example_set_links \<and>
   kind (definition_at 1 '' DEF2 '' ''/y.md'') = Definition \<and>
   normalizeRefName '' DEF2 '' = ''def2'' \<and>
   normalizeRefName '' DEF2 '' \<noteq> normalizeRefName (getPlaceholder example_set)"
proof -
  have e: "getPlaceholder example_set = ''def3''"
    by code_simp
  have l: "lookup example_set ''def'' \<noteq> None" "lookup example_set ''def2'' \<noteq> None"
    "normalizeRefName '' DEF2 '' = ''def2''"
    by code_simp+
  have m: "definition_at 1 '' DEF2 '' ''/y.md'' \<in> set example_set_links"
    "kind (definition_at 1 '' DEF2 '' ''/y.md'') = Definition"
    "ref_text (ref (definition_at 1 '' DEF2 '' ''/y.md'')) = '' DEF2 ''"
    by (simp_all add: example_set_links_def definition_at_def)
  from getPlaceholder_first_free [of example_set example_set_links] obtain i where
    i: "getPlaceholder example_set = placeholder_name i"
       "lookup example_set (getPlaceholder example_set) = None"
       "normalizeRefName (getPlaceholder example_set) \<notin> fst ` set example_set"
       "\<forall>d \<in> set example_set_links. kind d = Definition \<longrightarrow>
          normalizeRefName (ref_text (ref d))
            \<noteq> normalizeRefName (getPlaceholder (LinkDefinitionSet_create example_set_links))"
    by blast
  from i(4) m have "normalizeRefName '' DEF2 '' \<noteq> normalizeRefName (getPlaceholder example_set)"
    unfolding example_set_def by metis
  with i(2,3) e l m show ?thesis
    by simp
qed

section \<open>Definition Organizer: the rendered block\<close>

lemma example_compare_consistent: "consistent_comparator example_compare"
  by (auto simp: consistent_comparator_def example_compare_def split: if_splits)

lemma organize_last_edit:
  assumes "getOrganizeLinkDefinitionEdits cmp doc ru canc info \<noteq> []"
  shows "\<exists>prefix. (prefix = [] \<or> prefix = [LF] \<or> prefix = [LF, LF]) \<and>
           newText (last (getOrganizeLinkDefinitionEdits cmp doc ru canc info)) =
             prefix @ defBlock (newDefs cmp ru (links info)
                                  (filter (\<lambda>link. kind link = Definition) (links info)))"
  using assms
  by (auto simp: getOrganizeLinkDefinitionEdits_def Let_def split: if_splits option.splits)

lemma references_unfold:
  "references l d \<longleftrightarrow> kind l = Link \<and> href l = Reference (ref_text (ref d))"
  by (cases "href l") (auto simp: references_def)

lemma references_iff:
  "list_ex (\<lambda>link. references link d) ls \<longleftrightarrow>
     (\<exists>l \<in> set ls. kind l = Link \<and> href l = Reference (ref_text (ref d)))"
  by (simp add: list_ex_iff references_unfold)

lemma mset_newDefs:
  "mset (newDefs cmp ru ls defs) =
     filter_mset (\<lambda>d. \<not> ru \<or> (\<exists>l \<in> set ls. kind l = Link \<and> href l = Reference (ref_text (ref d))))
       (mset defs)"
proof -
  let ?P = "\<lambda>d. if \<not> ru then True else list_ex (\<lambda>link. references link d) ls"
  have "mset (newDefs cmp ru ls defs) = filter_mset ?P (mset (sortedDefs cmp defs))"
    by (simp add: newDefs_def)
  also have "\<dots> = filter_mset ?P (mset defs)"
    by (simp add: sortedDefs_def mset_Array_sort)
  also have "\<dots> = filter_mset (\<lambda>d. \<not> ru \<or> (\<exists>l \<in> set ls. kind l = Link \<and> href l = Reference (ref_text (ref d))))
       (mset defs)"
    by (rule filter_mset_cong) (auto simp: references_iff)
  finally show ?thesis .
qed

lemma sorted_newDefs:
  assumes "consistent_comparator cmp"
  shows "sorted_wrt (\<lambda>a b. cmp a b \<le> 0) (map (\<lambda>d. ref_text (ref d)) (newDefs cmp ru ls defs))"
proof -
  have "sorted_wrt (\<lambda>a b. cmp (ref_text (ref a)) (ref_text (ref b)) \<le> 0) (sortedDefs cmp defs)"
    unfolding sortedDefs_def
    by (rule sorted_Array_sort [OF consistent_comparator_key [OF assms]])
  then have "sorted_wrt (\<lambda>a b. cmp (ref_text (ref a)) (ref_text (ref b)) \<le> 0) (newDefs cmp ru ls defs)"
    unfolding newDefs_def by (rule sorted_wrt_filter)
  then show ?thesis
    by (simp add: sorted_wrt_map)
qed

text \<open>
  The Organizer renders the target text of a definition as the snapshot holds it. For
  the definition of \<open>wrapped_doc\<close>, whose target in angle brackets runs over two lines,
  the range is on one line and the target text holds a line break: the block text of
  this one definition has two lines.
\<close>

theorem wrapped_definition_two_lines_counterexample:
  "start_line (wrapped_definition_at 0) = end_line (wrapped_definition_at 0) \<and>
   newDefs example_compare False (links wrapped_info)
     (filter (\<lambda>link. kind link = Definition) (links wrapped_info)) = [wrapped_definition_at 0] \<and>
   newText (last (getOrganizeLinkDefinitionEdits example_compare wrapped_doc False False
                    wrapped_info)) = [LF, LF] @ defBlock [wrapped_definition_at 0] \<and>
   defBlock [wrapped_definition_at 0] = ''[a]: b'' @ [LF] @ ''c'' \<and>
   split_lines (defBlock [wrapped_definition_at 0]) = [''[a]: b'', ''c''] \<and>
   length (split_lines (defBlock [wrapped_definition_at 0])) = 2 \<and>
   length [wrapped_definition_at 0] = 1"
  by (intro conjI; code_simp)

text \<open>
  Claim C2 (sort correctness and rendering), as the code has it. With a consistent
  comparator for the labels, the text of every edit list the Organizer returns ends, in
  its last edit, with the block text of the kept definitions after at most two line
  feeds. The block text is the kept definitions joined by line feeds, each rendered as
  \<^verbatim>\<open>[label]: hrefText\<close> from the label and the literal target text of the definition;
  the kept definitions are definitions of the snapshot (all of them unless unused ones
  are removed) and their labels are in non-decreasing order of the comparator. When no
  rendered definition contains a line break, the lines of the block text are exactly the
  rendered definitions, one per line.
\<close>

theorem organize_block_sorted_rendered:
  assumes "consistent_comparator localeCompare"
    and "defs = filter (\<lambda>link. kind link = Definition) (links info)"
    and "nds = newDefs localeCompare removeUnused (links info) defs"
    and "es = getOrganizeLinkDefinitionEdits localeCompare doc removeUnused cancelled info"
  shows "(es \<noteq> [] \<longrightarrow>
           (\<exists>prefix. (prefix = [] \<or> prefix = [LF] \<or> prefix = [LF, LF]) \<and>
              newText (last es) = prefix @ defBlock nds)) \<and>
         defBlock nds =
           join [LF] (map (\<lambda>d. ''['' @ ref_text (ref d) @ '']: '' @ src_hrefText (source d)) nds) \<and>
         sorted_wrt (\<lambda>a b. localeCompare a b \<le> 0) (map (\<lambda>d. ref_text (ref d)) nds) \<and>
         mset nds \<subseteq># mset defs \<and>
         (\<not> removeUnused \<longrightarrow> mset nds = mset defs) \<and>
         (nds \<noteq> [] \<and>
          (\<forall>d \<in> set nds. LF \<notin> set (render_definition d) \<and> CR \<notin> set (render_definition d))
            \<longrightarrow> split_lines (defBlock nds) = map render_definition nds)"
proof (intro conjI impI)
  assume "es \<noteq> []"
  then show "\<exists>prefix. (prefix = [] \<or> prefix = [LF] \<or> prefix = [LF, LF]) \<and>
              newText (last es) = prefix @ defBlock nds"
    unfolding assms(2,3,4) by (rule organize_last_edit)
next
  show "defBlock nds =
      join [LF] (map (\<lambda>d. ''['' @ ref_text (ref d) @ '']: '' @ src_hrefText (source d)) nds)"
    by (simp add: defBlock_def render_definition_def [abs_def])
next
  show "sorted_wrt (\<lambda>a b. localeCompare a b \<le> 0) (map (\<lambda>d. ref_text (ref d)) nds)"
    unfolding assms(3) by (rule sorted_newDefs [OF assms(1)])
next
  show "mset nds \<subseteq># mset defs"
    unfolding assms(3) mset_newDefs by (rule multiset_filter_subset)
next
  assume "\<not> removeUnused"
  then show "mset nds = mset defs"
    unfolding assms(3) mset_newDefs by simp
next
  assume "nds \<noteq> [] \<and>
    (\<forall>d \<in> set nds. LF \<notin> set (render_definition d) \<and> CR \<notin> set (render_definition d))"
  then show "split_lines (defBlock nds) = map render_definition nds"
    unfolding defBlock_def by (intro split_lines_join) auto
qed

lemma example_organize:
  "getOrganizeLinkDefinitionEdits example_compare example_doc False False example_info =
     [\<lparr>newText = [], edit_range = Range_create 1 0 1 10\<rparr>,
      \<lparr>newText = [LF] @ ''[a]: /a.md'' @ [LF] @ ''[b]: /b.md'' @ [LF] @ ''[c]: /c.md'',
        edit_range = Range_create 3 0 4 10\<rparr>]"
  by code_simp

lemma example_newDefs:
  "newDefs example_compare False (links example_info)
     (filter (\<lambda>link. kind link = Definition) (links example_info)) =
   [definition_at 4 ''a'' ''/a.md'', definition_at 1 ''b'' ''/b.md'', definition_at 3 ''c'' ''/c.md'']"
  by code_simp

theorem organize_block_sorted_rendered_witness:
  "consistent_comparator example_compare \<and>
   getOrganizeLinkDefinitionEdits example_compare example_doc False False example_info \<noteq> [] \<and>
   newText (last (getOrganizeLinkDefinitionEdits example_compare example_doc False False example_info))
     = [LF] @ ''[a]: /a.md'' @ [LF] @ ''[b]: /b.md'' @ [LF] @ ''[c]: /c.md'' \<and>
   split_lines (defBlock (newDefs example_compare False (links example_info)
        (filter (\<lambda>link. kind link = Definition) (links example_info))))
     = [''[a]: /a.md'', ''[b]: /b.md'', ''[c]: /c.md''] \<and>
   sorted_wrt (\<lambda>a b. example_compare a b \<le> 0) [''a'', ''b'', ''c'']"
proof -
  let ?defs = "filter (\<lambda>link. kind link = Definition) (links example_info)"
  let ?nds = "newDefs example_compare False (links example_info) ?defs"
  let ?es = "getOrganizeLinkDefinitionEdits example_compare example_doc False False example_info"
  note t = organize_block_sorted_rendered [OF example_compare_consistent refl refl refl,
      where removeUnused = False and info = example_info and doc = example_doc
        and cancelled = False]
  have ne: "?es \<noteq> []" by (simp add: example_organize)
  have plain: "?nds \<noteq> [] \<and>
      (\<forall>d \<in> set ?nds. LF \<notin> set (render_definition d) \<and> CR \<notin> set (render_definition d))"
    unfolding example_newDefs
    by (simp add: render_definition_def definition_at_def LF_def CR_def)
  from t plain have s: "split_lines (defBlock ?nds) = map render_definition ?nds"
    by blast
  from t have o: "sorted_wrt (\<lambda>a b. example_compare a b \<le> 0) (map (\<lambda>d. ref_text (ref d)) ?nds)"
    by blast
  have r: "map render_definition ?nds = [''[a]: /a.md'', ''[b]: /b.md'', ''[c]: /c.md'']"
    "map (\<lambda>d. ref_text (ref d)) ?nds = [''a'', ''b'', ''c'']"
    unfolding example_newDefs by (simp_all add: render_definition_def definition_at_def)
  show ?thesis
    using example_compare_consistent ne s o r by (simp add: example_organize)
qed

section \<open>Definition Organizer: removal of unused definitions\<close>

text \<open>
  Claim C3 (unused-removal soundness) at a definition that is referenced in another
  letter case. In \<open>case_doc\<close> the definition \<^verbatim>\<open>[Foo]\<close> is referenced by \<^verbatim>\<open>[t][foo]\<close>:
  the normalized labels agree and the definition set of the snapshot resolves \<^verbatim>\<open>foo\<close>
  to the definition. The Organizer, asked to remove unused definitions, compares the
  two labels as they are written, keeps no definition and deletes the line of the
  definition.
\<close>

theorem removeUnused_deletes_referenced_definition:
  "kind (reference_at 0 4 ''t'' ''foo'') = Link \<and>
   href (reference_at 0 4 ''t'' ''foo'') = Reference ''foo'' \<and>
   reference_at 0 4 ''t'' ''foo'' \<in> set (links case_info) \<and>
   definition_at 2 ''Foo'' ''/x.md'' \<in> set (links case_info) \<and>
   normalizeRefName (ref_text (ref (definition_at 2 ''Foo'' ''/x.md''))) = normalizeRefName ''foo'' \<and>
   lookup (definitions case_info) ''foo'' = Some (definition_at 2 ''Foo'' ''/x.md'') \<and>
   newDefs example_compare True (links case_info)
     (filter (\<lambda>link. kind link = Definition) (links case_info)) = [] \<and>
   getOrganizeLinkDefinitionEdits example_compare case_doc True False case_info =
     [\<lparr>newText = [], edit_range = Range_create 2 0 2 12\<rparr>]"
proof -
  have a: "kind (reference_at 0 4 ''t'' ''foo'') = Link"
    "href (reference_at 0 4 ''t'' ''foo'') = Reference ''foo''"
    by (simp_all add: reference_at_def)
  have b: "reference_at 0 4 ''t'' ''foo'' \<in> set (links case_info)"
    "definition_at 2 ''Foo'' ''/x.md'' \<in> set (links case_info)"
    by (simp_all add: case_info_def case_links_def)
  have c: "normalizeRefName (ref_text (ref (definition_at 2 ''Foo'' ''/x.md''))) = normalizeRefName ''foo''"
    by code_simp
  have l: "lookup (definitions case_info) ''foo'' = Some (definition_at 2 ''Foo'' ''/x.md'')"
    by code_simp
  have d: "newDefs example_compare True (links case_info)
     (filter (\<lambda>link. kind link = Definition) (links case_info)) = []"
    by code_simp
  have e: "getOrganizeLinkDefinitionEdits example_compare case_doc True False case_info =
     [\<lparr>newText = [], edit_range = Range_create 2 0 2 12\<rparr>]"
    by code_simp
  show ?thesis by (intro conjI a b c l d e)
qed

text \<open>
  What the filter keeps: with \<open>removeUnused\<close> set, a definition stays in the block if and
  only if it is a definition of the snapshot and some link of kind \<open>Link\<close> has a
  reference href whose label is, character for character, the label text of the
  definition; each kept definition is kept as often as it occurs.
\<close>

theorem removeUnused_keeps_exactly_referenced:
  assumes "defs = filter (\<lambda>link. kind link = Definition) (links info)"
    and "nds = newDefs localeCompare True (links info) defs"
    and "es = getOrganizeLinkDefinitionEdits localeCompare doc True cancelled info"
  shows "(es \<noteq> [] \<longrightarrow>
           (\<exists>prefix. (prefix = [] \<or> prefix = [LF] \<or> prefix = [LF, LF]) \<and>
              newText (last es) = prefix @ defBlock nds)) \<and>
         (d \<in> set nds \<longleftrightarrow>
            d \<in> set defs \<and>
            (\<exists>l \<in> set (links info). kind l = Link \<and> href l = Reference (ref_text (ref d)))) \<and>
         mset nds =
           filter_mset
             (\<lambda>d. \<exists>l \<in> set (links info). kind l = Link \<and> href l = Reference (ref_text (ref d)))
             (mset defs)"
proof -
  have m: "mset nds =
           filter_mset
             (\<lambda>d. \<exists>l \<in> set (links info). kind l = Link \<and> href l = Reference (ref_text (ref d)))
             (mset defs)"
    unfolding assms(2) mset_newDefs by simp
  have "d \<in> set nds \<longleftrightarrow> d \<in># mset nds" by simp
  also have "\<dots> \<longleftrightarrow> d \<in> set defs \<and>
            (\<exists>l \<in> set (links info). kind l = Link \<and> href l = Reference (ref_text (ref d)))"
    unfolding m by simp
  finally have s: "d \<in> set nds \<longleftrightarrow>
            d \<in> set defs \<and>
            (\<exists>l \<in> set (links info). kind l = Link \<and> href l = Reference (ref_text (ref d)))" .
  have "es \<noteq> [] \<longrightarrow>
           (\<exists>prefix. (prefix = [] \<or> prefix = [LF] \<or> prefix = [LF, LF]) \<and>
              newText (last es) = prefix @ defBlock nds)"
    unfolding assms using organize_last_edit by blast
  with s m show ?thesis by blast
qed

lemma example_organize_unused:
  "getOrganizeLinkDefinitionEdits example_compare example_doc True False example_info =
     [\<lparr>newText = [], edit_range = Range_create 1 0 1 10\<rparr>,
      \<lparr>newText = [LF] @ ''[a]: /a.md'', edit_range = Range_create 3 0 4 10\<rparr>]"
  by code_simp

lemma example_newDefs_unused:
  "newDefs example_compare True (links example_info)
     (filter (\<lambda>link. kind link = Definition) (links example_info)) =
   [definition_at 4 ''a'' ''/a.md'']"
  by code_simp

theorem removeUnused_keeps_exactly_referenced_witness:
  "getOrganizeLinkDefinitionEdits example_compare example_doc True False example_info \<noteq> [] \<and>
   newText (last (getOrganizeLinkDefinitionEdits example_compare example_doc True False example_info))
     = [LF] @ ''[a]: /a.md'' \<and>
   reference_at 2 5 ''x'' ''a'' \<in> set (links example_info) \<and>
   kind (reference_at 2 5 ''x'' ''a'') = Link \<and>
   href (reference_at 2 5 ''x'' ''a'') = Reference (ref_text (ref (definition_at 4 ''a'' ''/a.md''))) \<and>
   definition_at 4 ''a'' ''/a.md'' \<in> set (newDefs example_compare True (links example_info)
     (filter (\<lambda>link. kind link = Definition) (links example_info))) \<and>
   definition_at 1 ''b'' ''/b.md'' \<notin> set (newDefs example_compare True (links example_info)
     (filter (\<lambda>link. kind link = Definition) (links example_info)))"
proof -
  let ?defs = "filter (\<lambda>link. kind link = Definition) (links example_info)"
  let ?nds = "newDefs example_compare True (links example_info) ?defs"
  note t = removeUnused_keeps_exactly_referenced [OF refl refl refl,
      where info = example_info and localeCompare = example_compare and doc = example_doc
        and cancelled = False]
  have l: "reference_at 2 5 ''x'' ''a'' \<in> set (links example_info)"
    "kind (reference_at 2 5 ''x'' ''a'') = Link"
    "href (reference_at 2 5 ''x'' ''a'') = Reference (ref_text (ref (definition_at 4 ''a'' ''/a.md'')))"
    "definition_at 4 ''a'' ''/a.md'' \<in> set ?defs"
    by (simp_all add: example_info_def example_links_def reference_at_def definition_at_def)
  from t [of "definition_at 4 ''a'' ''/a.md''"] l
  have a: "definition_at 4 ''a'' ''/a.md'' \<in> set ?nds"
    by blast
  have nb: "\<not> (\<exists>l \<in> set (links example_info). kind l = Link \<and>
       href l = Reference (ref_text (ref (definition_at 1 ''b'' ''/b.md''))))"
    by (simp add: example_info_def example_links_def reference_at_def definition_at_def)
  from t [of "definition_at 1 ''b'' ''/b.md''"] nb
  have b: "definition_at 1 ''b'' ''/b.md'' \<notin> set ?nds"
    by blast
  show ?thesis
    using a b l by (simp add: example_organize_unused)
qed

section \<open>Definition Organizer: no-op detection\<close>











section \<open>Link Extractor: the edits of an action\<close>

lemma foldl_rewrite_step:
  "foldl (rewrite_step r p t) acc ls =
     acc @ map (\<lambda>link. (r, \<lparr>newText = ''['' @ p @ '']'',
                           edit_range = (if kind link = AutoLink then src_range (source link)
                                         else src_targetRange (source link))\<rparr>))
             (filter (\<lambda>link. (kind link = Link \<or> kind link = AutoLink) \<and> matchesHref (href t) link) ls)"
  by (induction ls arbitrary: acc) (auto simp: rewrite_step_def builder_replace_def)

lemma createAddDefinitionEdit_single:
  "\<exists>pos prefix. createAddDefinitionEdit doc defs [(txt, ph)] =
       TextEdit_insert pos (prefix @ ''['' @ ph @ '']: '' @ txt) \<and>
       (prefix = [LF] \<or> prefix = [LF, LF])"
proof (cases "getExistingDefinitionBlock doc defs")
  case None
  then have "createAddDefinitionEdit doc defs [(txt, ph)] =
      TextEdit_insert \<lparr>line = lineCount doc, character = 0\<rparr> ([LF, LF] @ ''['' @ ph @ '']: '' @ txt)"
    by (simp add: createAddDefinitionEdit_def)
  then show ?thesis by blast
next
  case (Some b)
  then have "createAddDefinitionEdit doc defs [(txt, ph)] =
      TextEdit_insert \<lparr>line = endLine b, character = length (getLine doc (endLine b))\<rparr>
        ([LF] @ ''['' @ ph @ '']: '' @ txt)"
    by (simp add: createAddDefinitionEdit_def)
  then show ?thesis by blast
qed

lemma matchesHref_iff:
  "matchesHref h link \<longleftrightarrow>
     (\<exists>u v. href link = External u \<and> h = External v \<and> isSameResource u v) \<or>
     (\<exists>p f q g. href link = Internal p f \<and> h = Internal q g \<and> isSameResource p q \<and> f = g)"
  by (cases "href link"; cases h) (auto simp: matchesHref_def)

text \<open>
  Claim C5 (shared-target collapsing). The edits of the action built for a target link
  are, in the order of the snapshot's links, one rewrite to \<^verbatim>\<open>[placeholder]\<close> for every
  link of kind \<open>Link\<close> or \<open>AutoLink\<close> whose href matches the target's href (on the range
  of an autolink, on the target range of an inline link), and nothing for the other
  links, followed by exactly one insertion of the new definition
  \<^verbatim>\<open>[placeholder]: text\<close> after one or two line feeds. Two hrefs match when both are
  external with the same resource, or both are internal with the same resource and the
  same fragment.
\<close>

theorem extract_rewrites_every_match:
  "(\<exists>pos prefix.
      action_edit (getExtractLinkAction doc linkInfo targetLink) =
        Some (map (\<lambda>link. (getDocUri doc,
                     \<lparr>newText = ''['' @ getPlaceholder (definitions linkInfo) @ '']'',
                       edit_range = (if kind link = AutoLink then src_range (source link)
                                     else src_targetRange (source link))\<rparr>))
                (filter (\<lambda>link. (kind link = Link \<or> kind link = AutoLink) \<and>
                                  matchesHref (href targetLink) link)
                   (links linkInfo))
              @ [(getDocUri doc,
                  TextEdit_insert pos
                    (prefix @ ''['' @ getPlaceholder (definitions linkInfo) @ '']: ''
                       @ trim (getLinkTargetText doc targetLink)))]) \<and>
      (prefix = [LF] \<or> prefix = [LF, LF])) \<and>
   (matchesHref h link \<longleftrightarrow>
     (\<exists>u v. href link = External u \<and> h = External v \<and> isSameResource u v) \<or>
     (\<exists>p f q g. href link = Internal p f \<and> h = Internal q g \<and> isSameResource p q \<and> f = g))"
proof -
  let ?ph = "getPlaceholder (definitions linkInfo)"
  let ?txt = "trim (getLinkTargetText doc targetLink)"
  let ?defs = "filter (\<lambda>link. kind link = Definition) (links linkInfo)"
  from createAddDefinitionEdit_single [of doc ?defs ?txt ?ph] obtain pos prefix where
    e: "createAddDefinitionEdit doc ?defs [(?txt, ?ph)] =
          TextEdit_insert pos (prefix @ ''['' @ ?ph @ '']: '' @ ?txt)"
       "prefix = [LF] \<or> prefix = [LF, LF]"
    by blast
  have "action_edit (getExtractLinkAction doc linkInfo targetLink) =
        Some (map (\<lambda>link. (getDocUri doc,
                     \<lparr>newText = ''['' @ ?ph @ '']'',
                       edit_range = (if kind link = AutoLink then src_range (source link)
                                     else src_targetRange (source link))\<rparr>))
                (filter (\<lambda>link. (kind link = Link \<or> kind link = AutoLink) \<and>
                                  matchesHref (href targetLink) link)
                   (links linkInfo))
              @ [(getDocUri doc, TextEdit_insert pos (prefix @ ''['' @ ?ph @ '']: '' @ ?txt))])"
    by (simp add: getExtractLinkAction_def Let_def foldl_rewrite_step builder_insert_def e(1)
        TextEdit_insert_def)
  with e(2) matchesHref_iff [of h link] show ?thesis
    by blast
qed

lemma shared_action:
  "action_edit (getExtractLinkAction shared_doc shared_info (inline_at 0 0 ''a'' ''http://x'')) =
     Some [(''file:///shared.md'', \<lparr>newText = ''[def]'', edit_range = Range_create 0 3 0 13\<rparr>),
           (''file:///shared.md'', \<lparr>newText = ''[def]'', edit_range = Range_create 0 21 0 31\<rparr>),
           (''file:///shared.md'',
            TextEdit_insert \<lparr>line = 1, character = 0\<rparr> ([LF, LF] @ ''[def]: http://x''))]"
  by code_simp

theorem extract_rewrites_every_match_witness:
  "href (inline_at 0 0 ''a'' ''http://x'') = External ''http://x'' \<and>
   href (inline_at 0 18 ''b'' ''http://x'') = External ''http://x'' \<and>
   isSameResource ''http://x'' ''http://x'' \<and>
   matchesHref (href (inline_at 0 0 ''a'' ''http://x'')) (inline_at 0 18 ''b'' ''http://x'') \<and>
   action_edit (getExtractLinkAction shared_doc shared_info (inline_at 0 0 ''a'' ''http://x'')) =
     Some [(''file:///shared.md'', \<lparr>newText = ''[def]'', edit_range = Range_create 0 3 0 13\<rparr>),
           (''file:///shared.md'', \<lparr>newText = ''[def]'', edit_range = Range_create 0 21 0 31\<rparr>),
           (''file:///shared.md'',
            TextEdit_insert \<lparr>line = 1, character = 0\<rparr> ([LF, LF] @ ''[def]: http://x''))]"
proof -
  have h: "href (inline_at 0 0 ''a'' ''http://x'') = External ''http://x''"
    "href (inline_at 0 18 ''b'' ''http://x'') = External ''http://x''"
    "isSameResource ''http://x'' ''http://x''"
    by (simp_all add: inline_at_def isSameResource_def)
  from extract_rewrites_every_match
    [of shared_doc shared_info "inline_at 0 0 ''a'' ''http://x''"
       "href (inline_at 0 0 ''a'' ''http://x'')" "inline_at 0 18 ''b'' ''http://x''"] h
  have "matchesHref (href (inline_at 0 0 ''a'' ''http://x'')) (inline_at 0 18 ''b'' ''http://x'')"
    by blast
  with h shared_action show ?thesis by blast
qed

section \<open>Link Extractor: the actions\<close>

lemma comparePosition_consistent:
  "consistent_comparator (\<lambda>a b. comparePosition (f b) (f a))"
  unfolding consistent_comparator_def comparePosition_def
  by (auto split: if_splits)

lemma find_first:
  "\<forall>l \<in> set pre. \<not> P l \<Longrightarrow> P t \<Longrightarrow> find P (pre @ t # post) = Some t"
  by (induction pre) auto

lemma is_extractable_iff:
  "is_extractable l \<longleftrightarrow> (\<exists>u. href l = External u) \<or> (\<exists>p f. href l = Internal p f)"
  by (cases "href l") (auto simp: is_extractable_def)

text \<open>
  An enabled call whose token is cancelled returns no action at all, also when no link
  intersects the range.
\<close>

theorem getActions_cancelled_counterexample:
  "isEnabled None \<and>
   filter (\<lambda>link. kind link \<noteq> Definition \<and>
             ranges_touch (Range_create 0 0 0 0) (src_range (source link)))
     (links empty_info) = [] \<and>
   getActions ranges_touch shared_doc (Range_create 0 0 0 0) None True empty_info = [] \<and>
   getActions ranges_touch shared_doc (Range_create 0 0 0 0) None True empty_info
     \<noteq> [notOnLinkAction]"
  by (simp add: isEnabled_def getActions_def empty_info_def)

text \<open>
  Claim C8 (Extractor sentinel results), as the code has it. A call that is not enabled or
  whose token is cancelled returns no action. An enabled call that is not cancelled
  returns exactly the "not on link" sentinel when no link other than a definition
  intersects the range. Otherwise the intersecting links are sorted by descending start
  position (a rearrangement of them, each start position at least the next one's); the
  result is exactly the "already a reference" sentinel when none of them has an external
  or internal href, and otherwise the one action built for the first link of the sorted
  list that has one. The function is total: no branch of it fails.
\<close>

theorem getActions_sentinels:
  assumes "linksInRange =
             filter (\<lambda>link. kind link \<noteq> Definition \<and> rangeIntersects rng (src_range (source link)))
               (links linkInfo)"
    and "sorted_links =
           Array_sort (\<lambda>a b. comparePosition (range_start (src_range (source b)))
                                  (range_start (src_range (source a)))) linksInRange"
    and "result = getActions rangeIntersects doc rng only isCancellationRequested linkInfo"
  shows "(\<not> isEnabled only \<or> isCancellationRequested \<longrightarrow> result = []) \<and>
         (isEnabled only \<and> \<not> isCancellationRequested \<longrightarrow>
            (linksInRange = [] \<longrightarrow> result = [notOnLinkAction]) \<and>
            (linksInRange \<noteq> [] \<longrightarrow>
               mset sorted_links = mset linksInRange \<and>
               sorted_wrt (\<lambda>a b. comparePosition (range_start (src_range (source a)))
                                    (range_start (src_range (source b))) \<ge> 0) sorted_links \<and>
               ((\<forall>l \<in> set linksInRange. \<not> is_extractable l) \<longrightarrow> result = [alreadyRefLinkAction]) \<and>
               (\<forall>pre t post.
                   sorted_links = pre @ t # post \<and> (\<forall>l \<in> set pre. \<not> is_extractable l) \<and>
                   is_extractable t
                     \<longrightarrow> result = [getExtractLinkAction doc linkInfo t]))) \<and>
         (is_extractable l \<longleftrightarrow> (\<exists>u. href l = External u) \<or> (\<exists>p f. href l = Internal p f))"
proof (intro conjI impI allI)
  assume "\<not> isEnabled only \<or> isCancellationRequested"
  then show "result = []"
    unfolding assms(3) by (auto simp: getActions_def)
next
  assume "isEnabled only \<and> \<not> isCancellationRequested" "linksInRange = []"
  then show "result = [notOnLinkAction]"
    unfolding assms(3) using assms(1) by (simp add: getActions_def)
next
  show "mset sorted_links = mset linksInRange"
    unfolding assms(2) by (rule mset_Array_sort)
next
  have "sorted_wrt (\<lambda>a b. comparePosition (range_start (src_range (source b)))
                                    (range_start (src_range (source a))) \<le> 0) sorted_links"
    unfolding assms(2)
    by (rule sorted_Array_sort
        [OF comparePosition_consistent [of "\<lambda>l. range_start (src_range (source l))"]])
  moreover have "comparePosition q p \<le> 0 \<longleftrightarrow> comparePosition p q \<ge> 0" for p q
    by (auto simp: comparePosition_def)
  ultimately show "sorted_wrt (\<lambda>a b. comparePosition (range_start (src_range (source a)))
                                    (range_start (src_range (source b))) \<ge> 0) sorted_links"
    by simp
next
  assume e: "isEnabled only \<and> \<not> isCancellationRequested" and ne: "linksInRange \<noteq> []"
    and none: "\<forall>l \<in> set linksInRange. \<not> is_extractable l"
  have "set sorted_links = set linksInRange"
    unfolding assms(2) by (rule set_Array_sort)
  with none have "find is_extractable sorted_links = None"
    by (simp add: find_None_iff)
  with e ne show "result = [alreadyRefLinkAction]"
    unfolding assms(3) using assms(1,2) by (simp add: getActions_def Let_def)
next
  fix pre t post
  assume e: "isEnabled only \<and> \<not> isCancellationRequested" and ne: "linksInRange \<noteq> []"
    and s: "sorted_links = pre @ t # post \<and> (\<forall>l \<in> set pre. \<not> is_extractable l) \<and>
                   is_extractable t"
  then have "find is_extractable sorted_links = Some t"
    by (simp add: find_first)
  with e ne show "result = [getExtractLinkAction doc linkInfo t]"
    unfolding assms(3) using assms(1,2) by (simp add: getActions_def Let_def)
next
  show "is_extractable l \<longleftrightarrow> (\<exists>u. href l = External u) \<or> (\<exists>p f. href l = Internal p f)"
    by (rule is_extractable_iff)
qed

theorem getActions_sentinels_witness:
  "isEnabled (Some [''refactor.extract'']) \<and>
   filter (\<lambda>link. kind link \<noteq> Definition \<and>
             ranges_touch (Range_create 5 0 5 0) (src_range (source link)))
     (links shared_info) = [] \<and>
   getActions ranges_touch shared_doc (Range_create 5 0 5 0) (Some [''refactor.extract'']) False
     shared_info = [notOnLinkAction] \<and>
   filter (\<lambda>link. kind link \<noteq> Definition \<and>
             ranges_touch (Range_create 1 0 1 30) (src_range (source link)))
     (links organized_info) = [reference_at 1 4 ''x'' ''a'', reference_at 1 15 ''y'' ''b''] \<and>
   getActions ranges_touch organized_doc (Range_create 1 0 1 30) (Some [''refactor.extract''])
     False organized_info = [alreadyRefLinkAction] \<and>
   Array_sort (\<lambda>a b. comparePosition (range_start (src_range (source b)))
                                   (range_start (src_range (source a))))
     (filter (\<lambda>link. kind link \<noteq> Definition \<and>
                ranges_touch (Range_create 0 0 0 40) (src_range (source link)))
        (links shared_info))
     = [] @ inline_at 0 18 ''b'' ''http://x'' # [inline_at 0 0 ''a'' ''http://x''] \<and>
   is_extractable (inline_at 0 18 ''b'' ''http://x'') \<and>
   getActions ranges_touch shared_doc (Range_create 0 0 0 40) (Some [''refactor.extract'']) False
     shared_info = [getExtractLinkAction shared_doc shared_info (inline_at 0 18 ''b'' ''http://x'')]"
proof -
  let ?only = "Some [''refactor.extract'']"
  have en: "isEnabled ?only"
    by code_simp
  have f1: "filter (\<lambda>link. kind link \<noteq> Definition \<and>
             ranges_touch (Range_create 5 0 5 0) (src_range (source link)))
     (links shared_info) = []"
    by code_simp
  have f2: "filter (\<lambda>link. kind link \<noteq> Definition \<and>
             ranges_touch (Range_create 1 0 1 30) (src_range (source link)))
     (links organized_info) = [reference_at 1 4 ''x'' ''a'', reference_at 1 15 ''y'' ''b'']"
    by code_simp
  have f3: "Array_sort (\<lambda>a b. comparePosition (range_start (src_range (source b)))
                                   (range_start (src_range (source a))))
     (filter (\<lambda>link. kind link \<noteq> Definition \<and>
                ranges_touch (Range_create 0 0 0 40) (src_range (source link)))
        (links shared_info))
     = [] @ inline_at 0 18 ''b'' ''http://x'' # [inline_at 0 0 ''a'' ''http://x'']"
    by code_simp
  have x: "\<not> is_extractable (reference_at 1 4 ''x'' ''a'')"
    "\<not> is_extractable (reference_at 1 15 ''y'' ''b'')"
    "is_extractable (inline_at 0 18 ''b'' ''http://x'')"
    by (simp_all add: is_extractable_def reference_at_def inline_at_def)
  have ne: "filter (\<lambda>link. kind link \<noteq> Definition \<and>
                ranges_touch (Range_create 0 0 0 40) (src_range (source link)))
        (links shared_info) \<noteq> []"
    using f3 by (auto simp: Array_sort_def)
  have u1: "getActions ri doc rng ?only False info = [notOnLinkAction]"
    if "filter (\<lambda>link. kind link \<noteq> Definition \<and> ri rng (src_range (source link))) (links info) = []"
    for ri doc rng info
    using getActions_sentinels [OF refl refl refl, where only = "?only"
        and isCancellationRequested = False and rangeIntersects = ri and rng = rng
        and linkInfo = info and doc = doc] en that
    by blast
  have u2: "getActions ri doc rng ?only False info = [alreadyRefLinkAction]"
    if "filter (\<lambda>link. kind link \<noteq> Definition \<and> ri rng (src_range (source link))) (links info) = ls"
      "ls \<noteq> []" "\<forall>l \<in> set ls. \<not> is_extractable l"
    for ri doc rng info ls
    using getActions_sentinels [OF refl refl refl, where only = "?only"
        and isCancellationRequested = False and rangeIntersects = ri and rng = rng
        and linkInfo = info and doc = doc] en that
    by blast
  have u3: "getActions ri doc rng ?only False info = [getExtractLinkAction doc info t]"
    if "filter (\<lambda>link. kind link \<noteq> Definition \<and> ri rng (src_range (source link))) (links info) = ls"
      "ls \<noteq> []"
      "Array_sort (\<lambda>a b. comparePosition (range_start (src_range (source b)))
                                   (range_start (src_range (source a)))) ls = pre @ t # post"
      "\<forall>l \<in> set pre. \<not> is_extractable l" "is_extractable t"
    for ri doc rng info ls pre t post
    using getActions_sentinels [OF refl refl refl, where only = "?only"
        and isCancellationRequested = False and rangeIntersects = ri and rng = rng
        and linkInfo = info and doc = doc] en that
    by blast
  have r1: "getActions ranges_touch shared_doc (Range_create 5 0 5 0) ?only False shared_info
      = [notOnLinkAction]"
    by (rule u1 [where ri = ranges_touch and rng = "Range_create 5 0 5 0" and info = shared_info
          and doc = shared_doc, OF f1])
  have r2: "getActions ranges_touch organized_doc (Range_create 1 0 1 30) ?only False
      organized_info = [alreadyRefLinkAction]"
    by (rule u2 [where ri = ranges_touch and rng = "Range_create 1 0 1 30"
          and info = organized_info and doc = organized_doc, OF f2]) (use x in simp_all)
  have r3: "getActions ranges_touch shared_doc (Range_create 0 0 0 40) ?only False shared_info
      = [getExtractLinkAction shared_doc shared_info (inline_at 0 18 ''b'' ''http://x'')]"
    by (rule u3 [where ri = ranges_touch and rng = "Range_create 0 0 0 40" and info = shared_info
          and doc = shared_doc, OF refl ne f3]) (use x in simp_all)
  show ?thesis
    by (intro conjI en f1 f2 f3 x(3) r1 r2 r3)
qed

section \<open>Definition Inserter\<close>

lemma block_endLine:
  "getExistingDefinitionBlock doc defs = Some b \<Longrightarrow> endLine b = start_line (last defs)"
  by (auto simp: getExistingDefinitionBlock_def Let_def split: if_splits)

text \<open>
  Claim C10 (Inserter anchor). The edit of \<^verbatim>\<open>createAddDefinitionEdit\<close> is a pure
  insertion: its range starts where it ends. Without a block the position is the start
  of the line after the document's last. With a block the position is the end of the
  line numbered by the block's \<open>endLine\<close>, which is the start line of the last
  definition; so when the last definition ends on a later line than it starts, the
  insertion lies on its first line, before the definition's end, and (the definition
  starting within that line's text) at or after the definition's start: inside the last
  definition.
\<close>

theorem createAddDefinitionEdit_insertion:
  assumes "e = createAddDefinitionEdit doc defs nds"
    and "pos = range_start (edit_range e)"
    and "lastDef = last defs"
  shows "range_start (edit_range e) = range_end (edit_range e) \<and>
         (getExistingDefinitionBlock doc defs = None \<longrightarrow>
            pos = \<lparr>line = lineCount doc, character = 0\<rparr>) \<and>
         (\<forall>b. getExistingDefinitionBlock doc defs = Some b \<longrightarrow>
            endLine b = start_line lastDef \<and>
            pos = \<lparr>line = endLine b, character = length (getLine doc (endLine b))\<rparr>) \<and>
         (getExistingDefinitionBlock doc defs \<noteq> None \<and> start_line lastDef < end_line lastDef \<longrightarrow>
            line pos = start_line lastDef \<and> line pos < end_line lastDef \<and>
            comparePosition pos (range_end (src_range (source lastDef))) < 0 \<and>
            (character (range_start (src_range (source lastDef)))
               \<le> length (getLine doc (start_line lastDef)) \<longrightarrow>
             comparePosition (range_start (src_range (source lastDef))) pos \<le> 0))"
proof (intro conjI impI allI)
  show "range_start (edit_range e) = range_end (edit_range e)"
    unfolding assms(1)
    by (simp add: createAddDefinitionEdit_def TextEdit_insert_def Let_def split: option.splits)
next
  assume "getExistingDefinitionBlock doc defs = None"
  then show "pos = \<lparr>line = lineCount doc, character = 0\<rparr>"
    unfolding assms(1,2) by (simp add: createAddDefinitionEdit_def TextEdit_insert_def)
next
  fix b assume b: "getExistingDefinitionBlock doc defs = Some b"
  then show "endLine b = start_line lastDef"
    unfolding assms(3) by (rule block_endLine)
  from b show "pos = \<lparr>line = endLine b, character = length (getLine doc (endLine b))\<rparr>"
    unfolding assms(1,2) by (simp add: createAddDefinitionEdit_def TextEdit_insert_def Let_def)
next
  assume a: "getExistingDefinitionBlock doc defs \<noteq> None \<and> start_line lastDef < end_line lastDef"
  then obtain b where b: "getExistingDefinitionBlock doc defs = Some b" by blast
  have p: "pos = \<lparr>line = start_line lastDef, character = length (getLine doc (start_line lastDef))\<rparr>"
    using b block_endLine [OF b]
    unfolding assms(1,2,3)
    by (simp add: createAddDefinitionEdit_def TextEdit_insert_def Let_def)
  show "line pos = start_line lastDef" "line pos < end_line lastDef"
    using a p by simp_all
  show "comparePosition pos (range_end (src_range (source lastDef))) < 0"
    using a p by (simp add: comparePosition_def end_line_def)
  assume "character (range_start (src_range (source lastDef)))
               \<le> length (getLine doc (start_line lastDef))"
  then show "comparePosition (range_start (src_range (source lastDef))) pos \<le> 0"
    using p by (simp add: comparePosition_def start_line_def)
qed

lemma two_line_edit:
  "createAddDefinitionEdit two_line_doc [two_line_definition_at 1] [(''/y.md'', ''def'')] =
     TextEdit_insert \<lparr>line = 1, character = 4\<rparr> ([LF] @ ''[def]: /y.md'')"
  by code_simp

theorem createAddDefinitionEdit_insertion_witness:
  "getExistingDefinitionBlock two_line_doc [two_line_definition_at 1]
     = Some \<lparr>startLine = 1, endLine = 1\<rparr> \<and>
   start_line (two_line_definition_at 1) < end_line (two_line_definition_at 1) \<and>
   src_range (source (two_line_definition_at 1)) = Range_create 1 0 2 11 \<and>
   getLine two_line_doc 1 = ''[foo'' \<and>
   createAddDefinitionEdit two_line_doc [two_line_definition_at 1] [(''/y.md'', ''def'')] =
     TextEdit_insert \<lparr>line = 1, character = 4\<rparr> ([LF] @ ''[def]: /y.md'') \<and>
   comparePosition \<lparr>line = 1, character = 0\<rparr> \<lparr>line = 1, character = 4\<rparr> \<le> 0 \<and>
   comparePosition \<lparr>line = 1, character = 4\<rparr> \<lparr>line = 2, character = 11\<rparr> < 0"
proof -
  let ?d = "two_line_definition_at 1"
  let ?e = "createAddDefinitionEdit two_line_doc [?d] [(''/y.md'', ''def'')]"
  have b: "getExistingDefinitionBlock two_line_doc [?d] = Some \<lparr>startLine = 1, endLine = 1\<rparr>"
    by code_simp
  have l: "start_line ?d < end_line ?d" "src_range (source ?d) = Range_create 1 0 2 11"
    "getLine two_line_doc 1 = ''[foo''"
    by (simp_all add: two_line_definition_at_def start_line_def end_line_def Range_create_def
        getLine_def two_line_doc_def)
  have c: "character (range_start (src_range (source ?d))) \<le> length (getLine two_line_doc (start_line ?d))"
    by (simp add: two_line_definition_at_def start_line_def Range_create_def getLine_def
        two_line_doc_def)
  have pos: "range_start (edit_range ?e) = \<lparr>line = 1, character = 4\<rparr>"
    using two_line_edit by (simp add: TextEdit_insert_def)
  have u: "comparePosition (range_start (edit_range e)) (range_end (src_range (source (last defs)))) < 0 \<and>
      comparePosition (range_start (src_range (source (last defs)))) (range_start (edit_range e)) \<le> 0"
    if "e = createAddDefinitionEdit doc defs nds"
      "getExistingDefinitionBlock doc defs = Some blk"
      "start_line (last defs) < end_line (last defs)"
      "character (range_start (src_range (source (last defs))))
         \<le> length (getLine doc (start_line (last defs)))"
    for e doc defs nds blk
    using createAddDefinitionEdit_insertion [OF that(1) refl refl] that(2,3,4)
    by blast
  have "last [?d] = ?d" by simp
  with u [where e = ?e and doc = two_line_doc and defs = "[?d]"
      and nds = "[(''/y.md'', ''def'')]", OF refl b] l(1) c
  have "comparePosition (range_start (edit_range ?e)) (range_end (src_range (source ?d))) < 0"
    "comparePosition (range_start (src_range (source ?d))) (range_start (edit_range ?e)) \<le> 0"
    by (simp_all only:)
  then have "comparePosition \<lparr>line = 1, character = 0\<rparr> \<lparr>line = 1, character = 4\<rparr> \<le> 0"
    "comparePosition \<lparr>line = 1, character = 4\<rparr> \<lparr>line = 2, character = 11\<rparr> < 0"
    unfolding pos l(2) by (simp_all add: Range_create_def)
  with b l two_line_edit show ?thesis by blast
qed

section \<open>Edits that do not overlap: properties\<close>

lemma ranges_non_overlapping_sorted_wrt:
  "ranges_non_overlapping rs \<longleftrightarrow> sorted_wrt ranges_disjoint rs"
  unfolding ranges_non_overlapping_def sorted_wrt_iff_nth_less by blast

lemma non_overlapping_sorted_wrt:
  "non_overlapping es \<longleftrightarrow> sorted_wrt (\<lambda>a b. ranges_disjoint (edit_range a) (edit_range b)) es"
  by (simp add: non_overlapping_def ranges_non_overlapping_sorted_wrt sorted_wrt_map)

lemma scan_group_facts:
  assumes "sorted_wrt (<) (map start_line (e # ds))"
  shows "start_line e \<le> start_line (fst (scan_group e ds)) \<and>
         fst (scan_group e ds) \<in> set (e # ds) \<and>
         (\<exists>pre. ds = pre @ snd (scan_group e ds)) \<and>
         (\<forall>r \<in> set (snd (scan_group e ds)). start_line (fst (scan_group e ds)) < start_line r) \<and>
         (\<forall>n. start_line e \<le> n \<and> n \<le> start_line (fst (scan_group e ds))
            \<longrightarrow> n \<in> start_line ` set (e # ds))"
  using assms
proof (induction ds arbitrary: e)
  case Nil
  then show ?case by auto
next
  case (Cons d ds)
  show ?case
  proof (cases "start_line d = start_line e + 1")
    case True
    have s: "sorted_wrt (<) (map start_line (d # ds))"
      using Cons.prems by simp
    note ih = Cons.IH [OF s]
    have eq: "scan_group e (d # ds) = scan_group d ds"
      using True by simp
    have "\<exists>pre. d # ds = pre @ snd (scan_group d ds)"
      using ih by (metis append_Cons)
    moreover have "\<forall>n. start_line e \<le> n \<and> n \<le> start_line (fst (scan_group d ds))
            \<longrightarrow> n \<in> start_line ` set (e # d # ds)"
    proof (intro allI impI)
      fix n assume n: "start_line e \<le> n \<and> n \<le> start_line (fst (scan_group d ds))"
      show "n \<in> start_line ` set (e # d # ds)"
      proof (cases "n = start_line e")
        case True
        then show ?thesis by simp
      next
        case False
        with n \<open>start_line d = start_line e + 1\<close> have "start_line d \<le> n" by simp
        with n ih have "n \<in> start_line ` set (d # ds)" by blast
        then show ?thesis by auto
      qed
    qed
    ultimately show ?thesis
      unfolding eq using ih True by auto
  next
    case False
    then have eq: "scan_group e (d # ds) = (e, d # ds)" by simp
    show ?thesis
      unfolding eq using Cons.prems by auto
  qed
qed


lemma groups_facts:
  assumes "sorted_wrt (<) (map start_line L)"
  shows "(\<forall>g \<in> set (getDefinitionBlockGroups L).
            startLine g \<le> endLine g \<and> startLine g \<in> start_line ` set L \<and>
            endLine g \<in> start_line ` set L \<and>
            (\<forall>n. startLine g \<le> n \<and> n \<le> endLine g \<longrightarrow> n \<in> start_line ` set L)) \<and>
         sorted_wrt (\<lambda>g h. endLine g < startLine h) (getDefinitionBlockGroups L)"
  using assms
proof (induction L rule: getDefinitionBlockGroups.induct)
  case 1
  show ?case by simp
next
  case (2 d ds)
  let ?e = "fst (scan_group d ds)" and ?rest = "snd (scan_group d ds)"
  note sg = scan_group_facts [OF "2.prems"]
  from sg obtain pre where pre: "ds = pre @ ?rest" by blast
  have sorted_rest: "sorted_wrt (<) (map start_line ?rest)"
    using "2.prems" by (subst (asm) pre) (simp add: sorted_wrt_append)
  note ih = "2.IH" [OF sorted_rest]
  have sub: "set ?rest \<subseteq> set ds"
    by (subst (2) pre) simp
  have later: "\<forall>g \<in> set (getDefinitionBlockGroups ?rest). start_line ?e < startLine g"
    using ih sg by force
  have inherit: "\<forall>g \<in> set (getDefinitionBlockGroups ?rest).
            startLine g \<le> endLine g \<and> startLine g \<in> start_line ` set (d # ds) \<and>
            endLine g \<in> start_line ` set (d # ds) \<and>
            (\<forall>n. startLine g \<le> n \<and> n \<le> endLine g \<longrightarrow> n \<in> start_line ` set (d # ds))"
  proof
    fix g assume g: "g \<in> set (getDefinitionBlockGroups ?rest)"
    have "start_line ` set ?rest \<subseteq> start_line ` set (d # ds)"
      using sub by auto
    with ih g show "startLine g \<le> endLine g \<and> startLine g \<in> start_line ` set (d # ds) \<and>
            endLine g \<in> start_line ` set (d # ds) \<and>
            (\<forall>n. startLine g \<le> n \<and> n \<le> endLine g \<longrightarrow> n \<in> start_line ` set (d # ds))"
      by (meson subsetD)
  qed
  have first: "start_line d \<le> start_line ?e \<and> start_line d \<in> start_line ` set (d # ds) \<and>
      start_line ?e \<in> start_line ` set (d # ds) \<and>
      (\<forall>n. start_line d \<le> n \<and> n \<le> start_line ?e \<longrightarrow> n \<in> start_line ` set (d # ds))"
    using sg by (meson imageI list.set_intros(1))
  show ?case
    using first inherit later ih by simp
qed

lemma sorted_lines_last:
  "sorted_wrt (<) (map start_line L) \<Longrightarrow> x \<in> set L \<Longrightarrow> start_line x \<le> start_line (last L)"
proof (induction L rule: rev_induct)
  case Nil
  then show ?case by simp
next
  case (snoc y ys)
  then show ?case by (auto simp: sorted_wrt_append dest: less_imp_le)
qed

lemma block_start_gap:
  assumes "doc_ordered defs" and "getExistingDefinitionBlock doc defs = Some b"
  shows "\<forall>x \<in> set defs. startLine b \<le> start_line x \<or> start_line x + 1 < startLine b"
proof -
  from assms(2) have ne: "defs \<noteq> []"
    by (auto simp: getExistingDefinitionBlock_def)
  then obtain xs p where xp: "defs = xs @ [p]"
    by (metis rev_exhaust)
  have sorted: "sorted_wrt (<) (map start_line (xs @ [p]))"
    using assms(1) by (simp add: doc_ordered_def xp)
  from walk_back_split [OF sorted] obtain pre blk where
    s: "xs @ [p] = pre @ blk" "blk \<noteq> []" "walk_back p (rev xs) = hd blk"
       "pre = [] \<or> start_line (last pre) + 1 \<noteq> start_line (hd blk)"
    by blast
  have bs: "startLine b = start_line (hd blk)"
    using assms(2) s(3) by (auto simp: getExistingDefinitionBlock_def Let_def xp split: if_splits)
  have sp: "sorted_wrt (<) (map start_line pre)" "sorted_wrt (<) (map start_line blk)"
    "\<forall>x \<in> set pre. \<forall>y \<in> set blk. start_line x < start_line y"
    using sorted unfolding s(1) by (auto simp: sorted_wrt_append)
  have hd_in: "hd blk \<in> set blk" using s(2) by simp
  show ?thesis
  proof
    fix x assume "x \<in> set defs"
    then have "x \<in> set pre \<or> x \<in> set blk"
      unfolding xp s(1) by simp
    then show "startLine b \<le> start_line x \<or> start_line x + 1 < startLine b"
    proof
      assume x: "x \<in> set pre"
      then have pne: "pre \<noteq> []" by auto
      then have "last pre \<in> set pre" by simp
      with sp(3) hd_in have "start_line (last pre) < start_line (hd blk)" by blast
      with s(4) pne have "start_line (last pre) + 1 < start_line (hd blk)" by simp
      moreover have "start_line x \<le> start_line (last pre)"
        using sorted_lines_last [OF sp(1) x] .
      ultimately show ?thesis unfolding bs by simp
    next
      assume x: "x \<in> set blk"
      have "start_line (hd blk) \<le> start_line x"
        using sp(2) x s(2) by (cases blk) (auto dest: less_imp_le)
      then show ?thesis unfolding bs by simp
    qed
  qed
qed


lemma earlier_line_disjoint:
  "line (range_end a) < line (range_start b) \<Longrightarrow> ranges_disjoint a b"
  by (simp add: ranges_disjoint_def comparePosition_def)

lemma deletion_edits_disjoint:
  assumes "sorted_wrt (<) (map start_line L)"
  shows "sorted_wrt (\<lambda>a b. ranges_disjoint (edit_range a) (edit_range b))
           (group_deletion_edits doc blk (getDefinitionBlockGroups L))"
proof -
  have "sorted_wrt (\<lambda>g h. endLine g < startLine h) (getDefinitionBlockGroups L)"
    using groups_facts [OF assms] by blast
  then have "sorted_wrt (\<lambda>g h. endLine g < startLine h)
      (filter (\<lambda>g. case blk of None \<Rightarrow> True | Some b \<Rightarrow> startLine g < startLine b)
         (getDefinitionBlockGroups L))"
    by (rule sorted_wrt_filter)
  then show ?thesis
    unfolding group_deletion_edits_def sorted_wrt_map
    by (rule sorted_wrt_mono_rel [rotated])
      (simp add: earlier_line_disjoint Range_create_def)
qed

lemma group_before_block:
  assumes "doc_ordered defs" and "getExistingDefinitionBlock doc defs = Some b"
    and "g \<in> set (getDefinitionBlockGroups defs)" and "startLine g < startLine b"
  shows "endLine g < startLine b"
proof (rule ccontr)
  assume "\<not> endLine g < startLine b"
  then have ge: "startLine b \<le> endLine g" by simp
  have sorted: "sorted_wrt (<) (map start_line defs)"
    using assms(1) by (simp add: doc_ordered_def)
  from groups_facts [OF sorted] assms(3) have
    s: "startLine g \<in> start_line ` set defs"
    and r: "\<forall>n. startLine g \<le> n \<and> n \<le> endLine g \<longrightarrow> n \<in> start_line ` set defs"
    by blast+
  note gap = block_start_gap [OF assms(1,2)]
  from s gap assms(4) have far: "startLine g + 1 < startLine b" by force
  then have "startLine g \<le> startLine b - 1 \<and> startLine b - 1 \<le> endLine g"
    using ge by linarith
  with r have "startLine b - 1 \<in> start_line ` set defs" by blast
  with gap have "startLine b \<le> startLine b - 1 \<or> startLine b - 1 + 1 < startLine b"
    by force
  with far show False by linarith
qed

lemma getLastNonWhitespaceLine_ge:
  "start_line (last defs) \<le> getLastNonWhitespaceLine doc defs"
  by (simp add: getLastNonWhitespaceLine_def Let_def split: option.splits)

lemma organize_non_overlapping:
  assumes "doc_ordered (filter (\<lambda>link. kind link = Definition) (links info))"
  shows "non_overlapping (getOrganizeLinkDefinitionEdits cmp doc ru canc info)"
proof -
  let ?defs = "filter (\<lambda>link. kind link = Definition) (links info)"
  let ?G = "getDefinitionBlockGroups ?defs"
  let ?D = "group_deletion_edits doc (getExistingDefinitionBlock doc ?defs) ?G"
  have sorted: "sorted_wrt (<) (map start_line ?defs)"
    using assms by (simp add: doc_ordered_def)
  have D: "sorted_wrt (\<lambda>a b. ranges_disjoint (edit_range a) (edit_range b)) ?D"
    by (rule deletion_edits_disjoint [OF sorted])
  have app: "sorted_wrt (\<lambda>a b. ranges_disjoint (edit_range a) (edit_range b)) (?D @ [f])"
    if "\<forall>d \<in> set ?D. line (range_end (edit_range d)) < line (range_start (edit_range f))" for f
    using D that by (simp add: sorted_wrt_append earlier_line_disjoint)
  show ?thesis
  proof (cases "getExistingDefinitionBlock doc ?defs")
    case None
    let ?ln = "getLastNonWhitespaceLine doc ?defs"
    have "\<forall>d \<in> set ?D. line (range_end (edit_range d)) < ?ln + 1"
    proof
      fix d assume "d \<in> set ?D"
      then obtain g where g: "g \<in> set ?G" "line (range_end (edit_range d)) = endLine g"
        by (auto simp: group_deletion_edits_def Range_create_def)
      from groups_facts [OF sorted] g(1) obtain x where "x \<in> set ?defs" "endLine g = start_line x"
        by blast
      with sorted_lines_last [OF sorted] have "endLine g \<le> start_line (last ?defs)"
        by simp
      with getLastNonWhitespaceLine_ge [of ?defs doc] g(2)
      show "line (range_end (edit_range d)) < ?ln + 1" by simp
    qed
    then have "sorted_wrt (\<lambda>a b. ranges_disjoint (edit_range a) (edit_range b))
        (?D @ [\<lparr>newText = t, edit_range = Range_create (?ln + 1) 0 (lineCount doc) 0\<rparr>])" for t
      by (intro app) (simp add: Range_create_def)
    with None show ?thesis
      unfolding non_overlapping_sorted_wrt
      by (simp add: getOrganizeLinkDefinitionEdits_def Let_def)
  next
    case (Some b)
    have "\<forall>d \<in> set ?D. line (range_end (edit_range d)) < startLine b"
    proof
      fix d assume "d \<in> set ?D"
      then obtain g where g: "g \<in> set ?G" "startLine g < startLine b"
        "line (range_end (edit_range d)) = endLine g"
        using Some by (auto simp: group_deletion_edits_def Range_create_def)
      from group_before_block [OF assms Some g(1,2)] g(3)
      show "line (range_end (edit_range d)) < startLine b" by simp
    qed
    then have "sorted_wrt (\<lambda>a b. ranges_disjoint (edit_range a) (edit_range b))
        (?D @ [\<lparr>newText = t, edit_range = Range_create (startLine b) 0 (endLine b) n\<rparr>])" for t n
      by (intro app) (simp add: Range_create_def)
    with Some show ?thesis
      unfolding non_overlapping_sorted_wrt
      by (simp add: getOrganizeLinkDefinitionEdits_def Let_def)
  qed
qed

lemma insertion_disjoint:
  assumes "within_line doc r"
    and "pos = \<lparr>line = lineCount doc, character = 0\<rparr> \<or>
         pos = \<lparr>line = n, character = length (getLine doc n)\<rparr>"
  shows "ranges_disjoint r \<lparr>range_start = pos, range_end = pos\<rparr>"
  using assms
  by (auto simp: within_line_def ranges_disjoint_def comparePosition_def)

lemma createAddDefinitionEdit_position:
  "\<exists>n. range_start (edit_range (createAddDefinitionEdit doc defs nds)) =
           \<lparr>line = lineCount doc, character = 0\<rparr> \<or>
       range_start (edit_range (createAddDefinitionEdit doc defs nds)) =
           \<lparr>line = n, character = length (getLine doc n)\<rparr>"
  by (cases "getExistingDefinitionBlock doc defs")
    (auto simp: createAddDefinitionEdit_def TextEdit_insert_def Let_def)

lemma extract_non_overlapping:
  assumes "ranges_non_overlapping
             (map rewrite_range
                (filter (\<lambda>link. kind link = Link \<or> kind link = AutoLink) (links info)))"
    and "\<forall>link \<in> set (links info).
           kind link = Link \<or> kind link = AutoLink \<longrightarrow> within_line doc (rewrite_range link)"
  shows "\<exists>es. action_edit (getExtractLinkAction doc info t) = Some es \<and>
              non_overlapping (map snd es)"
proof -
  let ?K = "\<lambda>link. kind link = Link \<or> kind link = AutoLink"
  let ?M = "\<lambda>link. (kind link = Link \<or> kind link = AutoLink) \<and> matchesHref (href t) link"
  let ?ph = "getPlaceholder (definitions info)"
  let ?e = "createAddDefinitionEdit doc (filter (\<lambda>link. kind link = Definition) (links info))
              [(trim (getLinkTargetText doc t), ?ph)]"
  let ?pos = "range_start (edit_range ?e)"
  let ?rw = "map (\<lambda>link. (getDocUri doc, \<lparr>newText = ''['' @ ?ph @ '']'',
                                          edit_range = rewrite_range link\<rparr>))
               (filter ?M (links info))"
  let ?es = "?rw @ [(getDocUri doc, TextEdit_insert ?pos (newText ?e))]"
  have ed: "action_edit (getExtractLinkAction doc info t) = Some ?es"
    by (simp add: getExtractLinkAction_def Let_def foldl_rewrite_step builder_insert_def
        rewrite_range_def)
  have "sorted_wrt ranges_disjoint (map rewrite_range (filter ?K (links info)))"
    using assms(1) by (simp add: ranges_non_overlapping_sorted_wrt)
  then have "sorted_wrt (\<lambda>a b. ranges_disjoint (rewrite_range a) (rewrite_range b))
      (filter (\<lambda>link. matchesHref (href t) link) (filter ?K (links info)))"
    unfolding sorted_wrt_map by (rule sorted_wrt_filter)
  then have rw: "sorted_wrt (\<lambda>a b. ranges_disjoint (rewrite_range a) (rewrite_range b))
      (filter ?M (links info))"
    by (simp add: conj_commute)
  from createAddDefinitionEdit_position obtain n where
    pos: "?pos = \<lparr>line = lineCount doc, character = 0\<rparr> \<or>
          ?pos = \<lparr>line = n, character = length (getLine doc n)\<rparr>"
    by blast
  have ins: "\<forall>link \<in> set (filter ?M (links info)).
      ranges_disjoint (rewrite_range link) \<lparr>range_start = ?pos, range_end = ?pos\<rparr>"
    using assms(2) insertion_disjoint [OF _ pos] by auto
  have "sorted_wrt ranges_disjoint (map edit_range (map snd ?es))"
    using rw ins by (simp add: sorted_wrt_append sorted_wrt_map TextEdit_insert_def o_def)
  then have "non_overlapping (map snd ?es)"
    by (simp add: non_overlapping_def ranges_non_overlapping_sorted_wrt)
  with ed show ?thesis by blast
qed

lemma extract_insertion_disjoint:
  "\<exists>es. action_edit (getExtractLinkAction doc info t) = Some es \<and> es \<noteq> [] \<and>
     (\<forall>r \<in> set (butlast es).
         within_line doc (edit_range (snd r)) \<longrightarrow>
         ranges_disjoint (edit_range (snd r)) (edit_range (snd (last es))))"
proof -
  let ?M = "\<lambda>link. (kind link = Link \<or> kind link = AutoLink) \<and> matchesHref (href t) link"
  let ?ph = "getPlaceholder (definitions info)"
  let ?e = "createAddDefinitionEdit doc (filter (\<lambda>link. kind link = Definition) (links info))
              [(trim (getLinkTargetText doc t), ?ph)]"
  let ?pos = "range_start (edit_range ?e)"
  let ?rw = "map (\<lambda>link. (getDocUri doc, \<lparr>newText = ''['' @ ?ph @ '']'',
                                          edit_range = rewrite_range link\<rparr>))
               (filter ?M (links info))"
  let ?ins = "(getDocUri doc, TextEdit_insert ?pos (newText ?e))"
  have ed: "action_edit (getExtractLinkAction doc info t) = Some (?rw @ [?ins])"
    by (simp add: getExtractLinkAction_def Let_def foldl_rewrite_step builder_insert_def
        rewrite_range_def)
  from createAddDefinitionEdit_position obtain n where
    pos: "?pos = \<lparr>line = lineCount doc, character = 0\<rparr> \<or>
          ?pos = \<lparr>line = n, character = length (getLine doc n)\<rparr>"
    by blast
  have "\<forall>r \<in> set ?rw.
         within_line doc (edit_range (snd r)) \<longrightarrow>
         ranges_disjoint (edit_range (snd r)) (edit_range (snd ?ins))"
    using insertion_disjoint [OF _ pos] by (auto simp: TextEdit_insert_def)
  then have "\<forall>r \<in> set (butlast (?rw @ [?ins])).
         within_line doc (edit_range (snd r)) \<longrightarrow>
         ranges_disjoint (edit_range (snd r)) (edit_range (snd (last (?rw @ [?ins]))))"
    by (simp only: butlast_snoc last_snoc)
  with ed show ?thesis by blast
qed

text \<open>
  The Extractor rewrites every matching link on the range the snapshot gives. In
  \<open>nested_doc\<close> the inline link \<^verbatim>\<open>[a](<http://x>)\<close> and the autolink inside its target
  have the same destination: the action rewrites the ranges (0,3)-(0,15) and
  (0,4)-(0,14), which overlap.
\<close>

theorem nested_links_overlap_counterexample:
  "getActions ranges_touch nested_doc (Range_create 0 6 0 6) None False nested_info =
     [getExtractLinkAction nested_doc nested_info nested_autolink] \<and>
   action_edit (getExtractLinkAction nested_doc nested_info nested_autolink) =
     Some [(''file:///nested.md'', \<lparr>newText = ''[def]'', edit_range = Range_create 0 3 0 15\<rparr>),
           (''file:///nested.md'', \<lparr>newText = ''[def]'', edit_range = Range_create 0 4 0 14\<rparr>),
           (''file:///nested.md'',
            TextEdit_insert \<lparr>line = 1, character = 0\<rparr> ([LF, LF] @ ''[def]: http://x''))] \<and>
   \<not> ranges_disjoint (Range_create 0 3 0 15) (Range_create 0 4 0 14) \<and>
   \<not> non_overlapping
       [\<lparr>newText = ''[def]'', edit_range = Range_create 0 3 0 15\<rparr>,
        \<lparr>newText = ''[def]'', edit_range = Range_create 0 4 0 14\<rparr>,
        TextEdit_insert \<lparr>line = 1, character = 0\<rparr> ([LF, LF] @ ''[def]: http://x'')]"
proof -
  have a: "getActions ranges_touch nested_doc (Range_create 0 6 0 6) None False nested_info =
     [getExtractLinkAction nested_doc nested_info nested_autolink]"
    by code_simp
  have b: "action_edit (getExtractLinkAction nested_doc nested_info nested_autolink) =
     Some [(''file:///nested.md'', \<lparr>newText = ''[def]'', edit_range = Range_create 0 3 0 15\<rparr>),
           (''file:///nested.md'', \<lparr>newText = ''[def]'', edit_range = Range_create 0 4 0 14\<rparr>),
           (''file:///nested.md'',
            TextEdit_insert \<lparr>line = 1, character = 0\<rparr> ([LF, LF] @ ''[def]: http://x''))]"
    by code_simp
  have c: "\<not> ranges_disjoint (Range_create 0 3 0 15) (Range_create 0 4 0 14)"
    by code_simp
  have d: "\<not> non_overlapping
       [\<lparr>newText = ''[def]'', edit_range = Range_create 0 3 0 15\<rparr>,
        \<lparr>newText = ''[def]'', edit_range = Range_create 0 4 0 14\<rparr>,
        TextEdit_insert \<lparr>line = 1, character = 0\<rparr> ([LF, LF] @ ''[def]: http://x'')]"
    using c by (simp add: non_overlapping_sorted_wrt)
  show ?thesis by (intro conjI a b c d)
qed

text \<open>
  Claim C9 (edit non-overlap), as the code has it. For a snapshot whose definitions are
  in document order, the edits that one call of the Organizer returns have pairwise
  non-overlapping ranges: the deletion ranges of the groups are disjoint from each other
  and from the range of the block replacement or of the insertion. The edits of one
  Extractor action are its rewrite edits followed by the insertion of the new
  definition, and the insertion overlaps no rewrite edit whose range lies within the
  text of one line of the document.
\<close>

theorem organizer_edits_non_overlapping:
  "(doc_ordered (filter (\<lambda>link. kind link = Definition) (links info)) \<longrightarrow>
      non_overlapping
        (getOrganizeLinkDefinitionEdits localeCompare doc removeUnused cancelled info)) \<and>
   (\<exists>es. action_edit (getExtractLinkAction doc info targetLink) = Some es \<and> es \<noteq> [] \<and>
      (\<forall>r \<in> set (butlast es).
          within_line doc (edit_range (snd r)) \<longrightarrow>
          ranges_disjoint (edit_range (snd r)) (edit_range (snd (last es)))))"
proof (intro conjI impI)
  assume "doc_ordered (filter (\<lambda>link. kind link = Definition) (links info))"
  then show "non_overlapping
      (getOrganizeLinkDefinitionEdits localeCompare doc removeUnused cancelled info)"
    by (rule organize_non_overlapping)
next
  show "\<exists>es. action_edit (getExtractLinkAction doc info targetLink) = Some es \<and> es \<noteq> [] \<and>
      (\<forall>r \<in> set (butlast es).
          within_line doc (edit_range (snd r)) \<longrightarrow>
          ranges_disjoint (edit_range (snd r)) (edit_range (snd (last es))))"
    by (rule extract_insertion_disjoint)
qed

theorem organizer_edits_non_overlapping_witness:
  "doc_ordered (filter (\<lambda>link. kind link = Definition) (links example_info)) \<and>
   getOrganizeLinkDefinitionEdits example_compare example_doc False False example_info =
     [\<lparr>newText = [], edit_range = Range_create 1 0 1 10\<rparr>,
      \<lparr>newText = [LF] @ ''[a]: /a.md'' @ [LF] @ ''[b]: /b.md'' @ [LF] @ ''[c]: /c.md'',
        edit_range = Range_create 3 0 4 10\<rparr>] \<and>
   non_overlapping
     (getOrganizeLinkDefinitionEdits example_compare example_doc False False example_info) \<and>
   ranges_disjoint (Range_create 1 0 1 10) (Range_create 3 0 4 10) \<and>
   within_line shared_doc (Range_create 0 3 0 13) \<and>
   within_line shared_doc (Range_create 0 21 0 31) \<and>
   ranges_disjoint (Range_create 0 3 0 13)
     (edit_range (TextEdit_insert \<lparr>line = 1, character = 0\<rparr> ([LF, LF] @ ''[def]: http://x''))) \<and>
   ranges_disjoint (Range_create 0 21 0 31)
     (edit_range (TextEdit_insert \<lparr>line = 1, character = 0\<rparr> ([LF, LF] @ ''[def]: http://x'')))"
proof -
  let ?t = "inline_at 0 0 ''a'' ''http://x''"
  let ?ins = "TextEdit_insert \<lparr>line = 1, character = 0\<rparr> ([LF, LF] @ ''[def]: http://x'')"
  have o: "doc_ordered (filter (\<lambda>link. kind link = Definition) (links example_info))"
    by code_simp
  have w: "within_line shared_doc (Range_create 0 3 0 13)"
    "within_line shared_doc (Range_create 0 21 0 31)"
    by code_simp+
  have d: "ranges_disjoint (Range_create 1 0 1 10) (Range_create 3 0 4 10)"
    by code_simp
  from organizer_edits_non_overlapping
    [where info = example_info and localeCompare = example_compare and doc = example_doc
       and removeUnused = False and cancelled = False] o
  have n1: "non_overlapping
     (getOrganizeLinkDefinitionEdits example_compare example_doc False False example_info)"
    by blast
  from organizer_edits_non_overlapping [where info = shared_info and doc = shared_doc
      and targetLink = ?t]
  obtain es where es: "action_edit (getExtractLinkAction shared_doc shared_info ?t) = Some es"
    "\<forall>r \<in> set (butlast es).
        within_line shared_doc (edit_range (snd r)) \<longrightarrow>
        ranges_disjoint (edit_range (snd r)) (edit_range (snd (last es)))"
    by blast
  from es(1) have eq: "es =
      [(''file:///shared.md'', \<lparr>newText = ''[def]'', edit_range = Range_create 0 3 0 13\<rparr>),
       (''file:///shared.md'', \<lparr>newText = ''[def]'', edit_range = Range_create 0 21 0 31\<rparr>),
       (''file:///shared.md'', ?ins)]"
    unfolding shared_action by simp
  have i1: "ranges_disjoint (Range_create 0 3 0 13) (edit_range ?ins)"
    using es(2) w(1) unfolding eq by simp
  have i2: "ranges_disjoint (Range_create 0 21 0 31) (edit_range ?ins)"
    using es(2) w(2) unfolding eq by simp
  show ?thesis
    by (intro conjI o example_organize n1 d w i1 i2)
qed

section \<open>Definition Organizer: the insertion point without a block\<close>

text \<open>
  Without a block the last edit replaces the text from the line after
  \<open>getLastNonWhitespaceLine\<close> to the end of the document by one or two line feeds and the
  block text. When the last definition starts and ends on one line and the lines of the
  document are separated by line feeds, with or without a carriage return before them,
  that line is the last line of the document that is not blank.
\<close>

lemma last_nonblank_index_Some:
  "last_nonblank_index ls n = Some i \<Longrightarrow>
     i < n \<and> \<not> isEmptyOrWhitespace (ls ! i) \<and> (\<forall>j. i < j \<and> j < n \<longrightarrow> isEmptyOrWhitespace (ls ! j))"
proof (induction n)
  case 0
  then show ?case by simp
next
  case (Suc n)
  show ?case
  proof (cases "isEmptyOrWhitespace (ls ! n)")
    case True
    with Suc have "i < n \<and> \<not> isEmptyOrWhitespace (ls ! i) \<and>
        (\<forall>j. i < j \<and> j < n \<longrightarrow> isEmptyOrWhitespace (ls ! j))"
      by simp
    with True show ?thesis
      by (auto simp: less_Suc_eq)
  next
    case False
    with Suc.prems have "i = n" by simp
    with False show ?thesis by auto
  qed
qed

lemma last_nonblank_index_None:
  "last_nonblank_index ls n = None \<Longrightarrow> \<forall>j < n. isEmptyOrWhitespace (ls ! j)"
  by (induction n) (auto simp: less_Suc_eq split: if_splits)

lemma getLastNonWhitespaceLine_single_line:
  assumes "\<forall>l \<in> set (doc_lines doc). LF \<notin> set l \<and> CR \<notin> set l"
    and "doc_eol doc = [LF] \<or> doc_eol doc = [CR, LF]"
    and "end_line (last defs) = start_line (last defs)"
    and "\<not> isEmptyOrWhitespace (getTextFromLine doc (end_line (last defs) + 1))"
    and "n = getLastNonWhitespaceLine doc defs"
  shows "start_line (last defs) < n \<and> n < lineCount doc \<and>
         \<not> isEmptyOrWhitespace (getLine doc n) \<and>
         (\<forall>m. n < m \<and> m < lineCount doc \<longrightarrow> isEmptyOrWhitespace (getLine doc m))"
proof -
  let ?k = "end_line (last defs) + 1"
  let ?rest = "drop ?k (doc_lines doc)"
  have ws: "list_all isWhitespaceChar (doc_eol doc)"
    using assms(2) by (auto simp: isWhitespaceChar_def)
  have nb: "\<not> (\<forall>l \<in> set ?rest. isEmptyOrWhitespace l)"
    using assms(4) by (simp add: getTextFromLine_def join_lines_blank [OF ws])
  then have ne: "?rest \<noteq> []" by auto
  have "\<forall>l \<in> set ?rest. LF \<notin> set l \<and> CR \<notin> set l"
    using assms(1) by (meson in_set_dropD)
  with ne assms(2) have sp: "split_lines (getTextFromLine doc ?k) = ?rest"
    unfolding getTextFromLine_def by (auto simp: split_lines_join split_lines_join_crlf)
  have len: "length ?rest = lineCount doc - ?k" "?k < lineCount doc"
    using ne by (simp_all add: lineCount_def)
  have nth: "?rest ! j = getLine doc (?k + j)" if "j < length ?rest" for j
    using that by (auto simp: getLine_def)
  show ?thesis
  proof (cases "last_nonblank_index ?rest (length ?rest)")
    case None
    from last_nonblank_index_None [OF None] have "\<forall>l \<in> set ?rest. isEmptyOrWhitespace l"
      by (metis in_set_conv_nth)
    with nb show ?thesis by simp
  next
    case (Some i)
    note f = last_nonblank_index_Some [OF Some]
    have "getLastNonWhitespaceLine doc defs =
        (case last_nonblank_index ?rest (length ?rest) of
           Some i \<Rightarrow> start_line (last defs) + 1 + i
         | None \<Rightarrow> start_line (last defs))"
      by (simp only: getLastNonWhitespaceLine_def Let_def sp)
    then have n: "n = ?k + i"
      unfolding assms(5) Some using assms(3) by simp
    have "\<forall>m. n < m \<and> m < lineCount doc \<longrightarrow> isEmptyOrWhitespace (getLine doc m)"
    proof (intro allI impI)
      fix m assume m: "n < m \<and> m < lineCount doc"
      then have "i < m - ?k \<and> m - ?k < length ?rest"
        using n len by linarith
      with f have "isEmptyOrWhitespace (?rest ! (m - ?k))" by blast
      moreover have "?rest ! (m - ?k) = getLine doc (?k + (m - ?k))"
        using m n len by (intro nth) linarith
      moreover have "?k + (m - ?k) = m" using m n by linarith
      ultimately show "isEmptyOrWhitespace (getLine doc m)" by simp
    qed
    moreover have "\<not> isEmptyOrWhitespace (getLine doc n)"
      using f nth [of i] n by simp
    moreover have "i < lineCount doc - ?k"
      using f len by simp
    then have "start_line (last defs) < n" "n < lineCount doc"
      using n assms(3) by linarith+
    ultimately show ?thesis by blast
  qed
qed

lemma organize_no_block_edit:
  assumes "defs = filter (\<lambda>link. kind link = Definition) (links info)"
    and "defs \<noteq> []" and "getExistingDefinitionBlock doc defs = None"
    and "ln = getLastNonWhitespaceLine doc defs"
  shows "last (getOrganizeLinkDefinitionEdits cmp doc ru False info) =
           \<lparr>newText = (if int ln = int (lineCount doc) - 1 then [LF, LF] else [LF])
                        @ defBlock (newDefs cmp ru (links info) defs),
             edit_range = Range_create (ln + 1) 0 (lineCount doc) 0\<rparr>"
  using assms(2,3) unfolding assms(4) getOrganizeLinkDefinitionEdits_def assms(1) [symmetric]
  by (simp add: Let_def)

text \<open>
  Claim C7 (no-block insertion point) at a document whose lines are separated by lone
  carriage returns. In \<open>cr_doc\<close> the definition is on line 0 and line 2, the last line of
  the document, is not blank: the claim puts the list after line 2, after two line
  feeds. The loop cuts the text after the definition at line feeds only, finds one line
  where the document has two and returns line 1; the Organizer replaces line 2 by one
  line feed and the block text.
\<close>

theorem lone_carriage_return_insertion_point:
  "doc_lines cr_doc = [''[a]: /a.md'', ''one'', ''two''] \<and> doc_eol cr_doc = [CR] \<and>
   lineCount cr_doc = 3 \<and>
   start_line (definition_at 0 ''a'' ''/a.md'') = 0 \<and>
   end_line (definition_at 0 ''a'' ''/a.md'') = 0 \<and>
   \<not> isEmptyOrWhitespace (getLine cr_doc 2) \<and>
   getExistingDefinitionBlock cr_doc [definition_at 0 ''a'' ''/a.md''] = None \<and>
   split_lines (getTextFromLine cr_doc 1) = [''one'' @ [CR] @ ''two''] \<and>
   getLastNonWhitespaceLine cr_doc [definition_at 0 ''a'' ''/a.md''] = 1 \<and>
   last (getOrganizeLinkDefinitionEdits example_compare cr_doc False False cr_info) =
     \<lparr>newText = [LF] @ ''[a]: /a.md'', edit_range = Range_create 2 0 3 0\<rparr>"
  by (intro conjI; code_simp)

end
